theory Spec2Isabelle
  imports Main "HOL-Library.Sublist" "HOL-Library.Multiset"
begin

section \<open>Python string helpers\<close>

text \<open>
  Strings are lists of characters. A character stands for a code point below 256, which
  covers every text the scanner protocol and the examples use.
\<close>

definition startswith :: "string \<Rightarrow> string \<Rightarrow> bool" where
  "startswith s p = (take (length p) s = p)"

definition endswith :: "string \<Rightarrow> string \<Rightarrow> bool" where
  "endswith s p = (length p \<le> length s \<and> drop (length s - length p) s = p)"

text \<open>\<^verbatim>\<open>sep.join(xs)\<close>\<close>

fun py_join :: "string \<Rightarrow> string list \<Rightarrow> string" where
  "py_join sep [] = []"
| "py_join sep [x] = x"
| "py_join sep (x # y # ys) = x @ sep @ py_join sep (y # ys)"

section \<open>Process-wide socket and proxy settings\<close>

text \<open>
  \<^verbatim>\<open>socks.set_default_proxy\<close>, \<^verbatim>\<open>socket.socket\<close> and the fields of
  \<^verbatim>\<open>smb_structs\<close> are module attributes: one value for the whole process, shared by
  every thread.
\<close>

datatype socket_class = StdSocket | SocksSocket

record proc_globals =
  default_proxy :: "(string \<times> int) option"
  socket_socket :: socket_class
  smb_structs_socket :: socket_class
  SUPPORT_NTLMv2 :: bool
  SUPPORT_NTLMv1 :: bool

section \<open>scanner_process.py: check_smb_host\<close>

text \<open>
  The SMB session of one host, as the scanner sees it: what each method returns and
  whether it raises. \<open>None\<close> for \<open>connect\<close> and \<open>listShares\<close> means that the
  call raises. The permission probes are described per share name.
\<close>

record smb_session =
  connect_outcome :: "bool option"
  listShares_outcome :: "string list option"
  listPath_raises :: "string \<Rightarrow> bool"
  createDirectory_raises :: "string \<Rightarrow> bool"
  deleteDirectory_raises :: "string \<Rightarrow> bool"

datatype smb_call =
    Connect string
  | ListShares
  | ListPath string string
  | CreateDirectory string string
  | DeleteDirectory string string
  | Close

text \<open>
  The READ probe of lines 44-49: the call is made, and \<open>'READ'\<close> is appended unless it
  raised.
\<close>

definition probe_read :: "smb_session \<Rightarrow> string \<Rightarrow> string list \<times> smb_call list" where
  "probe_read conn share =
     (if listPath_raises conn share then ([], [ListPath share ''/''])
      else ([''READ''], [ListPath share ''/'']))"

text \<open>
  The WRITE probe of lines 50-57: \<open>deleteDirectory\<close> is only reached when
  \<open>createDirectory\<close> returned, and \<open>'WRITE'\<close> is appended only when both returned.
\<close>

definition probe_write :: "smb_session \<Rightarrow> string \<Rightarrow> string \<Rightarrow> string list \<times> smb_call list" where
  "probe_write conn share temp_dir =
     (let p = ''/'' @ temp_dir in
      if createDirectory_raises conn share then ([], [CreateDirectory share p])
      else if deleteDirectory_raises conn share
        then ([], [CreateDirectory share p, DeleteDirectory share p])
      else ([''WRITE''], [CreateDirectory share p, DeleteDirectory share p]))"

text \<open>
  The body of the loop over the shares, for one share that does not end in \<open>$\<close>
  (lines 41-62). \<open>temp\<close> is the value of \<^verbatim>\<open>os.urandom(4).hex()\<close> drawn for the share.
\<close>

definition share_permissions ::
  "smb_session \<Rightarrow> bool \<Rightarrow> string \<Rightarrow> string \<Rightarrow> string \<times> smb_call list" where
  "share_permissions conn quick_scan share temp =
     (if \<not> quick_scan then
        (let (r, cr) = probe_read conn share;
             (w, cw) = probe_write conn share (''temp_check_'' @ temp);
             perms_list = r @ w
         in (if perms_list \<noteq> [] then py_join '', '' perms_list else ''NO_ACCESS'', cr @ cw))
      else (''N/A (Quick Scan)'', []))"

text \<open>
  The loop of lines 39-62. \<open>urandom_hex k\<close> is the \<open>k\<close>-th random name of the run; the
  counter advances only when a name is drawn.
\<close>

fun enumerate_shares ::
  "smb_session \<Rightarrow> bool \<Rightarrow> (nat \<Rightarrow> string) \<Rightarrow> nat \<Rightarrow> string list
     \<Rightarrow> (string \<times> string) list \<times> smb_call list" where
  "enumerate_shares conn quick_scan urandom_hex k [] = ([], [])"
| "enumerate_shares conn quick_scan urandom_hex k (share # shares) =
     (if \<not> endswith share ''$'' then
        (let (permissions, calls) = share_permissions conn quick_scan share (urandom_hex k);
             (share_info, calls') =
               enumerate_shares conn quick_scan urandom_hex (if quick_scan then k else Suc k) shares
         in ((share, permissions) # share_info, calls @ calls'))
      else enumerate_shares conn quick_scan urandom_hex k shares)"

record host_result =
  host :: string
  status :: string
  shares :: "(string \<times> string) list"

text \<open>Lines 17-27: the proxy settings are written to the process-wide defaults.\<close>

definition scanner_set_proxy :: "bool \<Rightarrow> int \<Rightarrow> proc_globals \<Rightarrow> proc_globals" where
  "scanner_set_proxy use_proxy proxy_port g =
     g\<lparr>default_proxy := (if use_proxy then Some (''127.0.0.1'', proxy_port) else None),
       socket_socket := SocksSocket,
       smb_structs_socket := SocksSocket,
       SUPPORT_NTLMv2 := True,
       SUPPORT_NTLMv1 := False\<rparr>"

text \<open>
  \<open>check_smb_host\<close> returns the result dictionary or \<open>None\<close>; the model also returns
  the calls made on the session, in order, and the process-wide settings it leaves.
  Every exception of the session is caught (line 67); \<open>close\<close> runs in the
  \<^verbatim>\<open>finally\<close> block because \<open>conn\<close> is set before \<open>connect\<close> is called.
\<close>

definition check_smb_host ::
  "smb_session \<Rightarrow> (nat \<Rightarrow> string) \<Rightarrow> string \<Rightarrow> bool \<Rightarrow> bool \<Rightarrow> int \<Rightarrow> proc_globals
     \<Rightarrow> host_result option \<times> smb_call list \<times> proc_globals" where
  "check_smb_host conn urandom_hex h quick_scan use_proxy proxy_port g =
     (let g' = scanner_set_proxy use_proxy proxy_port g in
      case connect_outcome conn of
        None \<Rightarrow> (None, [Connect h, Close], g')
      | Some False \<Rightarrow> (None, [Connect h, Close], g')
      | Some True \<Rightarrow>
          (case listShares_outcome conn of
             None \<Rightarrow> (None, [Connect h, ListShares, Close], g')
           | Some names \<Rightarrow>
               (let (share_info, calls) = enumerate_shares conn quick_scan urandom_hex 1 names
                in (if share_info \<noteq> []
                    then Some \<lparr>host = h, status = ''success'', shares = share_info\<rparr>
                    else None,
                    [Connect h, ListShares] @ calls @ [Close], g'))))"

definition is_probe :: "smb_call \<Rightarrow> bool" where
  "is_probe c = (case c of ListPath _ _ \<Rightarrow> True | CreateDirectory _ _ \<Rightarrow> True
                 | DeleteDirectory _ _ \<Rightarrow> True | _ \<Rightarrow> False)"

section \<open>More Python string helpers\<close>

text \<open>
  \<^verbatim>\<open>s.replace(old, new)\<close> for a non-empty \<open>old\<close>: every occurrence, found from the left
  without overlap, is replaced.
\<close>

function py_replace :: "string \<Rightarrow> string \<Rightarrow> string \<Rightarrow> string" where
  "py_replace old new s =
     (if s = [] then []
      else if old \<noteq> [] \<and> startswith s old
        then new @ py_replace old new (drop (length old) s)
      else hd s # py_replace old new (tl s))"
  by pat_completeness auto
termination
  by (relation "measure (\<lambda>(old, new, s). length s)") auto

declare py_replace.simps [simp del]

text \<open>
  \<^verbatim>\<open>str.lower\<close> on code points below 256: the ASCII capitals and the Latin-1 capitals
  \<open>0xC0\<close> to \<open>0xDE\<close> (without the multiplication sign \<open>0xD7\<close>) move up by 32.
\<close>

definition lower_char :: "char \<Rightarrow> char" where
  "lower_char c =
     (let n = (of_char c :: nat) in
      if (65 \<le> n \<and> n \<le> 90) \<or> (192 \<le> n \<and> n \<le> 222 \<and> n \<noteq> 215)
      then char_of (n + 32) else c)"

definition lower :: "string \<Rightarrow> string" where
  "lower s = map lower_char s"

text \<open>\<^verbatim>\<open>str.isspace\<close> for one code point below 256, and \<^verbatim>\<open>str.strip()\<close>.\<close>

definition isspace :: "char \<Rightarrow> bool" where
  "isspace c =
     (let n = (of_char c :: nat) in
      (9 \<le> n \<and> n \<le> 13) \<or> (28 \<le> n \<and> n \<le> 32) \<or> n = 133 \<or> n = 160)"

definition strip :: "string \<Rightarrow> string" where
  "strip s = rev (dropWhile isspace (rev (dropWhile isspace s)))"

text \<open>
  \<^verbatim>\<open>os.path.basename\<close> and the two-argument \<^verbatim>\<open>os.path.join\<close> of \<open>posixpath\<close>. For
  names without a separator or a drive letter, \<open>ntpath.join\<close> followed by the
  replacement of every backslash, as \<open>_fetch_path_contents\<close> does, gives the same path.
\<close>

definition basename :: "string \<Rightarrow> string" where
  "basename p = rev (takeWhile (\<lambda>c. c \<noteq> CHR ''/'') (rev p))"

definition os_path_join :: "string \<Rightarrow> string \<Rightarrow> string" where
  "os_path_join a p =
     (if startswith p ''/'' then p
      else if a = [] \<or> endswith a ''/'' then a @ p
      else a @ ''/'' @ p)"

abbreviation backslash :: char where
  "backslash \<equiv> CHR 0x5C"

section \<open>The remote share\<close>

text \<open>
  The share is a finite tree. \<open>listPath\<close> on a directory returns its entries, each with
  \<open>filename\<close>, \<open>isDirectory\<close> and \<open>file_size\<close>; a directory entry carries the entries
  that listing its own path returns.
\<close>

datatype entry = FileEntry string nat | DirEntry string "entry list"

fun filename :: "entry \<Rightarrow> string" where
  "filename (FileEntry n sz) = n"
| "filename (DirEntry n items) = n"

fun isDirectory :: "entry \<Rightarrow> bool" where
  "isDirectory (FileEntry n sz) = False"
| "isDirectory (DirEntry n items) = True"

fun file_size :: "entry \<Rightarrow> nat" where
  "file_size (FileEntry n sz) = sz"
| "file_size (DirEntry n items) = 0"

fun listing :: "entry \<Rightarrow> entry list" where
  "listing (FileEntry n sz) = []"
| "listing (DirEntry n items) = items"

datatype exn = Exception string

text \<open>
  What lies outside the worker during one build: the tree of the share, the paths whose
  listing task raises (its \<open>connect\<close> or its \<open>listPath\<close> fails), the order in which the
  pool runs the tasks of each level, the order in which they complete, and the levels at
  which the thread pool refuses a task (\<open>submit\<close> raises).
\<close>

record remote_share =
  root_listing :: "entry list"
  task_raises :: "string \<Rightarrow> bool"
  start_order :: "nat \<Rightarrow> nat list"
  completion_order :: "nat \<Rightarrow> nat list"
  submit_raises :: "nat \<Rightarrow> bool"

text \<open>
  \<^verbatim>\<open>as_completed\<close> yields the futures of a level in the order they finish, which is any
  order: the schedule \<open>ks\<close> picks, at each step, one of the futures not yet yielded. The
  same function orders the tasks of a level as the pool runs them.
\<close>

fun as_completed :: "nat list \<Rightarrow> 'a list \<Rightarrow> 'a list" where
  "as_completed ks [] = []"
| "as_completed [] (x # xs) = x # xs"
| "as_completed (k # ks) (x # xs) =
     (let i = k mod length (x # xs)
      in (x # xs) ! i # as_completed ks (take i (x # xs) @ drop (Suc i) (x # xs)))"

section \<open>SMBOverSocksBrowser.py: BrowserWorker\<close>

record config =
  smb_host :: string
  use_proxy :: "bool option"
  proxy_host :: string
  proxy_port :: int

text \<open>
  The fields of the worker (\<open>is_running\<close> is \<^verbatim>\<open>_is_running\<close>, \<open>smb_connection\<close> tells
  whether the attribute is set), the signals it has emitted, oldest first, the lines it
  has printed, the process-wide settings, and the paths for which a listing task has run.
\<close>

record browser_worker =
  worker_config :: config
  smb_connection :: bool
  is_running :: bool
  is_cached :: bool
  is_caching :: bool
  file_path_cache :: "(string \<times> nat) list"
  status_update :: "string list"
  search_finished :: "(string \<times> nat) list list"
  printed :: "string list"
  globals :: proc_globals
  listed_paths :: "string list"

text \<open>Lines 605-609, the same statements as lines 522-526 of \<open>run_browser\<close>.\<close>

definition browser_set_proxy :: "config \<Rightarrow> proc_globals \<Rightarrow> proc_globals" where
  "browser_set_proxy c g =
     g\<lparr>default_proxy :=
         (if (case use_proxy c of None \<Rightarrow> True | Some b \<Rightarrow> b)
          then Some (proxy_host c, proxy_port c) else None),
       socket_socket := SocksSocket\<rparr>"

type_synonym cache_record = "string \<times> nat"
type_synonym frontier = "(string \<times> entry list) list"

text \<open>
  The loop of lines 614-621 over the items of one listing. A subdirectory is returned
  with its path; the model keeps beside the path the entries that listing it returns.
\<close>

fun partition_items :: "string \<Rightarrow> entry list \<Rightarrow> cache_record list \<times> frontier" where
  "partition_items path [] = ([], [])"
| "partition_items path (item # items) =
     (let (files_found, subdirs_found) = partition_items path items in
      if filename item \<in> {''.'', ''..''} then (files_found, subdirs_found)
      else
        (let full_path = py_replace [backslash] ''/'' (os_path_join path (filename item)) in
         if isDirectory item then (files_found, (full_path, listing item) # subdirs_found)
         else ((full_path, file_size item) # files_found, subdirs_found)))"

text \<open>\<open>_fetch_path_contents\<close>: the value returned or the exception raised, and the effects.\<close>

definition fetch_path_contents ::
  "remote_share \<Rightarrow> string \<times> entry list \<Rightarrow> browser_worker
     \<Rightarrow> (exn + cache_record list \<times> frontier) \<times> browser_worker" where
  "fetch_path_contents env task w =
     (if \<not> is_running w then (Inr ([], []), w)
      else
        (let w1 = w\<lparr>status_update := status_update w @ [''Indexing: '' @ fst task]\<rparr>;
             w2 = w1\<lparr>globals := browser_set_proxy (worker_config w1) (globals w1)\<rparr>;
             w3 = w2\<lparr>listed_paths := listed_paths w2 @ [fst task]\<rparr>
         in if task_raises env (fst task) then (Inl (Exception ''listing failed''), w3)
            else (Inr (partition_items (fst task) (snd task)), w3)))"

text \<open>
  The tasks of a level, in the order the pool runs them: each emits its signal and lists
  its path; every task has run when the level ends.
\<close>

fun submit_all ::
  "remote_share \<Rightarrow> frontier \<Rightarrow> browser_worker
     \<Rightarrow> (exn + cache_record list \<times> frontier) list \<times> browser_worker" where
  "submit_all env [] w = ([], w)"
| "submit_all env (task # tasks) w =
     (let (r, w1) = fetch_path_contents env task w;
          (rs, w2) = submit_all env tasks w1
      in (r # rs, w2))"

text \<open>Lines 591-598: the results are taken in completion order.\<close>

fun collect_results ::
  "(exn + cache_record list \<times> frontier) list \<Rightarrow> browser_worker \<Rightarrow> frontier
     \<Rightarrow> browser_worker \<times> frontier" where
  "collect_results [] w next_level_dirs = (w, next_level_dirs)"
| "collect_results (r # rs) w next_level_dirs =
     (if \<not> is_running w then (w, next_level_dirs)
      else case r of
        Inr (files, subdirs) \<Rightarrow>
          collect_results rs (w\<lparr>file_path_cache := file_path_cache w @ files\<rparr>)
            (next_level_dirs @ subdirs)
      | Inl (Exception e) \<Rightarrow>
          collect_results rs
            (w\<lparr>printed := printed w @ [''Error fetching path contents during cache build: '' @ e]\<rparr>)
            next_level_dirs)"

definition run_level ::
  "remote_share \<Rightarrow> nat \<Rightarrow> frontier \<Rightarrow> browser_worker \<Rightarrow> browser_worker \<times> frontier" where
  "run_level env lvl dirs_to_scan w =
     (let (results, w1) = submit_all env (as_completed (start_order env lvl) dirs_to_scan) w
      in collect_results (as_completed (completion_order env lvl) results) w1 [])"

text \<open>
  The loop of lines 586-599, level by level. A level does not start when the worker was
  stopped, and the exception of a refused \<open>submit\<close> leaves the loop.
\<close>

function build_levels ::
  "remote_share \<Rightarrow> nat \<Rightarrow> frontier \<Rightarrow> browser_worker \<Rightarrow> exn option \<times> browser_worker" where
  "build_levels env lvl dirs_to_scan w =
     (if dirs_to_scan = [] then (None, w)
      else if \<not> is_running w then (None, w)
      else if submit_raises env lvl then (Some (Exception ''cannot start new thread''), w)
      else (case run_level env lvl dirs_to_scan w of
              (w', next_level_dirs) \<Rightarrow> build_levels env (Suc lvl) next_level_dirs w'))"
  by pat_completeness auto

definition frontier_weight :: "frontier \<Rightarrow> nat" where
  "frontier_weight dirs = sum_list (map (\<lambda>t. Suc (size_list size (snd t))) dirs)"

definition result_weight :: "(exn + cache_record list \<times> frontier) \<Rightarrow> nat" where
  "result_weight r = (case r of Inl e \<Rightarrow> 0 | Inr fs \<Rightarrow> frontier_weight (snd fs))"

lemma frontier_weight_simps [simp]:
  "frontier_weight [] = 0"
  "frontier_weight (t # ts) = Suc (size_list size (snd t)) + frontier_weight ts"
  "frontier_weight (xs @ ys) = frontier_weight xs + frontier_weight ys"
  by (simp_all add: frontier_weight_def)

lemma partition_items_weight:
  "frontier_weight (snd (partition_items path items)) \<le> size_list size items"
proof (induction items)
  case Nil
  show ?case by simp
next
  case (Cons item items)
  then show ?case
    by (cases item) (simp_all add: split_beta Let_def)
qed

lemma fetch_path_contents_weight:
  "result_weight (fst (fetch_path_contents env task w)) \<le> size_list size (snd task)"
  using partition_items_weight [of "fst task" "snd task"]
  by (simp add: fetch_path_contents_def result_weight_def Let_def)

lemma submit_all_weight:
  "sum_list (map result_weight (fst (submit_all env dirs w))) + length dirs \<le> frontier_weight dirs"
proof (induction dirs arbitrary: w)
  case Nil
  show ?case by simp
next
  case (Cons task dirs)
  show ?case
    using Cons [of "snd (fetch_path_contents env task w)"] fetch_path_contents_weight [of env task w]
    by (simp add: split_beta Let_def)
qed

lemma mset_as_completed: "mset (as_completed ks xs) = mset xs"
proof (induction ks xs rule: as_completed.induct)
  case (3 k ks x xs)
  define ys where "ys = x # xs"
  define i where "i = k mod length ys"
  have i: "i < length ys" by (simp add: i_def ys_def)
  have step: "as_completed (k # ks) (x # xs) = ys ! i # as_completed ks (take i ys @ drop (Suc i) ys)"
    by (simp add: Let_def i_def ys_def del: take_Cons' drop_Suc_Cons nth_Cons')
  have IH: "mset (as_completed ks (take i ys @ drop (Suc i) ys)) = mset (take i ys @ drop (Suc i) ys)"
    using 3 [of i] by (simp add: i_def ys_def)
  have "mset (as_completed (k # ks) (x # xs)) = add_mset (ys ! i) (mset (take i ys @ drop (Suc i) ys))"
    by (simp only: step IH mset.simps)
  also have "\<dots> = mset (take i ys @ ys ! i # drop (Suc i) ys)"
    by simp
  also have "\<dots> = mset ys"
    using i by (simp only: id_take_nth_drop [symmetric])
  finally show ?case by (simp only: ys_def)
qed simp_all

lemma sum_list_as_completed:
  fixes f :: "'a \<Rightarrow> nat"
  shows "sum_list (map f (as_completed ks xs)) = sum_list (map f xs)"
proof -
  have "sum_mset (image_mset f (mset (as_completed ks xs))) = sum_mset (image_mset f (mset xs))"
    by (simp only: mset_as_completed)
  then show ?thesis by (simp only: sum_mset_sum_list mset_map [symmetric])
qed

lemma collect_results_weight:
  "frontier_weight (snd (collect_results rs w nxt)) \<le> frontier_weight nxt + sum_list (map result_weight rs)"
proof (induction rs w nxt rule: collect_results.induct)
  case (1 w nxt)
  show ?case by simp
next
  case (2 r rs w nxt)
  show ?case
  proof (cases "is_running w")
    case False
    then show ?thesis by simp
  next
    case True
    show ?thesis
    proof (cases r)
      case (Inl e)
      obtain m where "e = Exception m" by (cases e)
      with 2(1) [of e m] True Inl show ?thesis by (simp add: result_weight_def)
    next
      case (Inr fs)
      with 2(2) [of fs "fst fs" "snd fs"] True show ?thesis
        by (simp add: result_weight_def split_beta)
    qed
  qed
qed

lemma run_level_weight:
  "dirs \<noteq> [] \<Longrightarrow> frontier_weight (snd (run_level env lvl dirs w)) < frontier_weight dirs"
proof -
  assume ne: "dirs \<noteq> []"
  define tasks where "tasks = as_completed (start_order env lvl) dirs"
  have tasks: "frontier_weight tasks = frontier_weight dirs" "length tasks = length dirs"
    using mset_as_completed [of "start_order env lvl" dirs]
    by (simp_all add: tasks_def frontier_weight_def sum_list_as_completed) (metis size_mset)
  let ?rs = "fst (submit_all env tasks w)"
  have "frontier_weight (snd (run_level env lvl dirs w))
          \<le> sum_list (map result_weight (as_completed (completion_order env lvl) ?rs))"
    using collect_results_weight [of "as_completed (completion_order env lvl) ?rs"
        "snd (submit_all env tasks w)" "[]"]
    by (simp add: run_level_def split_beta tasks_def)
  also have "\<dots> = sum_list (map result_weight ?rs)"
    by (rule sum_list_as_completed)
  also have "\<dots> < frontier_weight dirs"
    using submit_all_weight [of env tasks w] ne tasks by (cases dirs) simp_all
  finally show ?thesis .
qed

termination build_levels
proof (relation "measure (\<lambda>(env, lvl, dirs, w). frontier_weight dirs)")
  show "wf (measure (\<lambda>(env, lvl, dirs, w). frontier_weight dirs))" by simp
next
  fix env :: remote_share and lvl :: nat and dirs_to_scan :: frontier and w x y
  assume "dirs_to_scan \<noteq> []" and "(x, y) = run_level env lvl dirs_to_scan w"
  then show "((env, Suc lvl, y, x), (env, lvl, dirs_to_scan, w))
       \<in> measure (\<lambda>(env, lvl, dirs, w). frontier_weight dirs)"
    using run_level_weight [of dirs_to_scan env lvl w]
    by (simp add: prod_eq_iff)
qed

declare build_levels.simps [simp del]

definition build_cache_parallel :: "remote_share \<Rightarrow> browser_worker \<Rightarrow> exn option \<times> browser_worker" where
  "build_cache_parallel env w = build_levels env 0 [(''/'', root_listing env)] w"

definition emit_status :: "string \<Rightarrow> browser_worker \<Rightarrow> browser_worker" where
  "emit_status msg w = w\<lparr>status_update := status_update w @ [msg]\<rparr>"

definition emit_search_finished :: "cache_record list \<Rightarrow> browser_worker \<Rightarrow> browser_worker" where
  "emit_search_finished results w = w\<lparr>search_finished := search_finished w @ [results]\<rparr>"

text \<open>\<open>start_background_caching\<close>, lines 535-550, with its \<^verbatim>\<open>try/except/finally\<close>.\<close>

definition start_background_caching :: "remote_share \<Rightarrow> browser_worker \<Rightarrow> browser_worker" where
  "start_background_caching env w =
     (if \<not> smb_connection w \<or> is_cached w \<or> is_caching w \<or> \<not> is_running w then w
      else
        (let w1 = w\<lparr>is_caching := True\<rparr>;
             w2 = emit_status ''Starting background file indexing...'' w1;
             w3 = w2\<lparr>file_path_cache := []\<rparr>
         in case build_cache_parallel env w3 of
              (None, w4) \<Rightarrow>
                (let w5 = w4\<lparr>is_cached := True\<rparr>;
                     w6 = emit_status
                       ''Background file indexing is complete. Search is now available.'' w5
                 in w6\<lparr>is_caching := False\<rparr>)
            | (Some (Exception e), w4) \<Rightarrow>
                (let w5 = emit_status (''Error during background caching: '' @ e) w4
                 in w5\<lparr>is_caching := False\<rparr>)))"

text \<open>The list comprehension of line 572.\<close>

definition search_cache :: "string \<Rightarrow> cache_record list \<Rightarrow> cache_record list" where
  "search_cache keyword cache =
     filter (\<lambda>(path, size). sublist (lower keyword) (lower (basename path))) cache"

text \<open>\<open>do_search\<close>, lines 552-581.\<close>

definition do_search :: "remote_share \<Rightarrow> string \<Rightarrow> browser_worker \<Rightarrow> browser_worker" where
  "do_search env keyword w =
     (if \<not> smb_connection w then w
      else if is_caching w then
        emit_search_finished []
          (emit_status ''File indexing is in progress. Please wait a moment before searching.'' w)
      else
        (let (raised, w1) =
               (if \<not> is_cached w then
                  (let w1 = w\<lparr>is_caching := True\<rparr>;
                       w2 = emit_status
                         ''First search: building file index... This may take a moment.'' w1;
                       w3 = w2\<lparr>file_path_cache := []\<rparr>
                   in case build_cache_parallel env w3 of
                        (None, w4) \<Rightarrow> (None, w4\<lparr>is_cached := True, is_caching := False\<rparr>)
                      | (Some e, w4) \<Rightarrow> (Some e, w4))
                else (None, w));
             w5 =
               (case raised of
                  None \<Rightarrow>
                    (let w2 = emit_status (''Searching for '' @ [CHR 0x27] @ keyword @ [CHR 0x27]
                                 @ '' in cache...'') w1;
                         results = search_cache keyword (file_path_cache w2)
                     in emit_search_finished results w2)
                | Some (Exception e) \<Rightarrow>
                    emit_search_finished [] (emit_status (''Error during search: '' @ e) w1))
         in if is_caching w5 then w5\<lparr>is_caching := False\<rparr> else w5))"

text \<open>\<open>stop\<close>, lines 652-657: the connection attribute stays set.\<close>

definition stop :: "browser_worker \<Rightarrow> browser_worker" where
  "stop w = w\<lparr>is_running := False\<rparr>"

text \<open>
  The worker after \<open>__init__\<close> and a successful \<open>run_browser\<close>, which has emitted its
  two status signals and installed the proxy.
\<close>

definition connected_worker :: "config \<Rightarrow> proc_globals \<Rightarrow> browser_worker" where
  "connected_worker c g =
     \<lparr>worker_config = c, smb_connection = True, is_running = True, is_cached = False,
      is_caching = False, file_path_cache = [],
      status_update = [''Setting SOCKS proxy...'',
                       ''Connecting to SMB host '' @ smb_host c @ ''...''],
      search_finished = [], printed = [], globals = browser_set_proxy c g, listed_paths = []\<rparr>"

section \<open>SMBOverSocksBrowser.py: handle_scanner_output\<close>

text \<open>
  The value \<^verbatim>\<open>json.loads\<close> returns. The decoder belongs to the Python library: it is a
  parameter of the model, \<open>None\<close> when it raises \<open>JSONDecodeError\<close>.
\<close>

datatype json =
    JNull
  | JBool bool
  | JNumber int
  | JString string
  | JArray "json list"
  | JObject "(string \<times> json) list"

datatype gui_error = AttributeError | TypeError | KeyError

text \<open>
  The window's part of the state: the line buffer, the messages shown in the status bar,
  the rows of the result model (a host with its share rows), the results decoded so far
  and the lines printed.
\<close>

record scan_gui =
  scanner_buffer :: string
  status_bar :: "string list"
  scan_model :: "(string \<times> (string \<times> string) list) list"
  results_decoded :: "json list"
  gui_printed :: "string list"

definition update_status :: "string \<Rightarrow> scan_gui \<Rightarrow> scan_gui" where
  "update_status message st = st\<lparr>status_bar := status_bar st @ [''Status: '' @ message]\<rparr>"

text \<open>\<^verbatim>\<open>d.get(k)\<close> on a decoded object: the last pair of a repeated key counts.\<close>

definition dict_get :: "(string \<times> json) list \<Rightarrow> string \<Rightarrow> json option" where
  "dict_get d k = map_of (rev d) k"

text \<open>\<^verbatim>\<open>for share in shares\<close>: what iterating the value yields, or \<open>TypeError\<close>.\<close>

definition iterate :: "json \<Rightarrow> gui_error + json list" where
  "iterate v =
     (case v of
        JArray xs \<Rightarrow> Inr xs
      | JObject d \<Rightarrow> Inr (map JString (rev (remdups (rev (map fst d)))))
      | JString s \<Rightarrow> Inr (map (\<lambda>c. JString [c]) s)
      | _ \<Rightarrow> Inl TypeError)"

text \<open>
  The text of the item that \<open>QStandardItem(v)\<close> makes: the string itself; empty for
  \<open>None\<close> and for a number or a truth value, which select the constructor that takes a
  row count; a list or a dictionary fits no constructor.
\<close>

definition qt_item_text :: "json \<Rightarrow> gui_error + string" where
  "qt_item_text v =
     (case v of
        JString s \<Rightarrow> Inr s
      | JNull \<Rightarrow> Inr []
      | JNumber n \<Rightarrow> Inr []
      | JBool b \<Rightarrow> Inr []
      | _ \<Rightarrow> Inl TypeError)"

text \<open>\<^verbatim>\<open>share[key]\<close> passed to \<open>QStandardItem\<close>.\<close>

definition item_text :: "json \<Rightarrow> string \<Rightarrow> gui_error + string" where
  "item_text share key =
     (case share of
        JObject d \<Rightarrow>
          (case dict_get d key of
             None \<Rightarrow> Inl KeyError
           | Some v \<Rightarrow> qt_item_text v)
      | _ \<Rightarrow> Inl TypeError)"

text \<open>Appending a share row under the first row of the host.\<close>

fun append_share_row ::
  "string \<Rightarrow> string \<times> string \<Rightarrow> (string \<times> (string \<times> string) list) list
     \<Rightarrow> (string \<times> (string \<times> string) list) list" where
  "append_share_row h row [] = []"
| "append_share_row h row ((h', rows) # m) =
     (if h' = h then (h', rows @ [row]) # m else (h', rows) # append_share_row h row m)"

text \<open>Lines 1117-1119.\<close>

fun add_shares :: "string \<Rightarrow> json list \<Rightarrow> scan_gui \<Rightarrow> gui_error option \<times> scan_gui" where
  "add_shares h [] st = (None, st)"
| "add_shares h (share # rest) st =
     (case item_text share ''name'' of
        Inl e \<Rightarrow> (Some e, st)
      | Inr name \<Rightarrow>
          (case item_text share ''permissions'' of
             Inl e \<Rightarrow> (Some e, st)
           | Inr perms \<Rightarrow>
               add_shares h rest (st\<lparr>scan_model := append_share_row h (name, perms) (scan_model st)\<rparr>)))"

text \<open>
  Lines 1112-1119 after a successful \<^verbatim>\<open>json.loads\<close>. A host that is missing or is
  not a string gives a host row with empty text.
\<close>

definition add_result :: "json \<Rightarrow> scan_gui \<Rightarrow> gui_error option \<times> scan_gui" where
  "add_result result st =
     (let st0 = st\<lparr>results_decoded := results_decoded st @ [result]\<rparr> in
      case result of
        JObject d \<Rightarrow>
          (case qt_item_text (case dict_get d ''host'' of None \<Rightarrow> JNull | Some v \<Rightarrow> v) of
             Inr h \<Rightarrow>
               (let st1 = (if h \<in> fst ` set (scan_model st0) then st0
                           else st0\<lparr>scan_model := scan_model st0 @ [(h, [])]\<rparr>)
                in case iterate (case dict_get d ''shares'' of None \<Rightarrow> JArray [] | Some v \<Rightarrow> v) of
                     Inl e \<Rightarrow> (Some e, st1)
                   | Inr share_list \<Rightarrow> add_shares h share_list st1)
           | Inl e \<Rightarrow> (Some e, st0))
      | _ \<Rightarrow> (Some AttributeError, st0))"

abbreviation newline :: char where
  "newline \<equiv> CHR 0x0A"

lemma scanner_buffer_update_status [simp]:
  "scanner_buffer (update_status m st) = scanner_buffer st"
  by (simp add: update_status_def)

lemma scanner_buffer_add_shares [simp]:
  "scanner_buffer (snd (add_shares h xs st)) = scanner_buffer st"
  by (induction h xs st rule: add_shares.induct) (simp_all split: sum.splits)

lemma scanner_buffer_add_result [simp]:
  "scanner_buffer (snd (add_result r st)) = scanner_buffer st"
  by (simp add: add_result_def Let_def split: json.splits option.splits sum.splits)

lemma add_result_buffer:
  "(e, y) = add_result r st \<Longrightarrow> scanner_buffer y = scanner_buffer st"
  using scanner_buffer_add_result [of r st] by (simp add: prod_eq_iff)

lemma buffer_shrinks: "c \<in> set xs \<Longrightarrow> length xs - Suc n < length xs"
  by (cases xs) auto

text \<open>
  The loop of lines 1105-1120. Only \<open>JSONDecodeError\<close> is caught; another exception
  leaves the slot, with the line already taken off the buffer.
\<close>

function process_buffer ::
  "(string \<Rightarrow> json option) \<Rightarrow> scan_gui \<Rightarrow> gui_error option \<times> scan_gui" where
  "process_buffer json_loads st =
     (if newline \<notin> set (scanner_buffer st) then (None, st)
      else
        (let newline_pos = length (takeWhile (\<lambda>c. c \<noteq> newline) (scanner_buffer st));
             line = strip (take newline_pos (scanner_buffer st));
             st1 = st\<lparr>scanner_buffer := drop (newline_pos + 1) (scanner_buffer st)\<rparr>
         in if line = [] then process_buffer json_loads st1
            else if startswith line ''STATUS:''
              then process_buffer json_loads
                     (update_status (strip (py_replace ''STATUS:'' [] line)) st1)
            else if startswith line ''RESULT:''
              then (case json_loads (strip (py_replace ''RESULT:'' [] line)) of
                      None \<Rightarrow>
                        process_buffer json_loads
                          (st1\<lparr>gui_printed := gui_printed st1
                                 @ [''[GUI ERROR] Failed to parse JSON result: '' @ line]\<rparr>)
                    | Some result \<Rightarrow>
                        (case add_result result st1 of
                           (Some e, st2) \<Rightarrow> (Some e, st2)
                         | (None, st2) \<Rightarrow> process_buffer json_loads st2))
            else process_buffer json_loads st1))"
  by pat_completeness auto
termination
  by (relation "measure (\<lambda>(js, st). length (scanner_buffer st))")
    (auto simp: Let_def buffer_shrinks dest!: add_result_buffer)

declare process_buffer.simps [simp del]

text \<open>Line 1104: the chunk read from the process is appended to the buffer first.\<close>

definition handle_scanner_output ::
  "(string \<Rightarrow> json option) \<Rightarrow> string \<Rightarrow> scan_gui \<Rightarrow> gui_error option \<times> scan_gui" where
  "handle_scanner_output json_loads data st =
     process_buffer json_loads (st\<lparr>scanner_buffer := scanner_buffer st @ data\<rparr>)"

section \<open>Reference walks of the share\<close>

text \<open>
  The files a depth-first walk records when it joins names as \<open>_fetch_path_contents\<close>
  does and gives up below a path whose listing fails.
\<close>

definition full_path :: "string \<Rightarrow> string \<Rightarrow> string" where
  "full_path path name = py_replace [backslash] ''/'' (os_path_join path name)"

fun walk_files :: "(string \<Rightarrow> bool) \<Rightarrow> string \<Rightarrow> entry \<Rightarrow> cache_record list" where
  "walk_files bad path (FileEntry n sz) =
     (if n \<in> {''.'', ''..''} then [] else [(full_path path n, sz)])"
| "walk_files bad path (DirEntry n items) =
     (if n \<in> {''.'', ''..''} \<or> bad (full_path path n) then []
      else concat (map (walk_files bad (full_path path n)) items))"

definition task_files :: "(string \<Rightarrow> bool) \<Rightarrow> string \<times> entry list \<Rightarrow> cache_record list" where
  "task_files bad task =
     (if bad (fst task) then [] else concat (map (walk_files bad (fst task)) (snd task)))"

definition frontier_files :: "(string \<Rightarrow> bool) \<Rightarrow> frontier \<Rightarrow> cache_record multiset" where
  "frontier_files bad dirs = (\<Sum>t\<leftarrow>dirs. mset (task_files bad t))"

definition result_files ::
  "(string \<Rightarrow> bool) \<Rightarrow> (exn + cache_record list \<times> frontier) \<Rightarrow> cache_record multiset" where
  "result_files bad r =
     (case r of Inl e \<Rightarrow> {#} | Inr fs \<Rightarrow> mset (fst fs) + frontier_files bad (snd fs))"

text \<open>
  The path of an entry as the specification writes it: a slash before every name on the
  way from the root.
\<close>

definition abs_path :: "string list \<Rightarrow> string" where
  "abs_path names = (if names = [] then ''/'' else concat (map (\<lambda>n. CHR ''/'' # n) names))"

text \<open>
  The files reachable from a directory whose names from the root are \<open>dir\<close>: one record
  per file, none for a directory, nothing below a directory whose listing fails.
\<close>

fun tree_files :: "(string \<Rightarrow> bool) \<Rightarrow> string list \<Rightarrow> entry \<Rightarrow> cache_record list" where
  "tree_files bad dir (FileEntry n sz) =
     (if n \<in> {''.'', ''..''} then [] else [(abs_path (dir @ [n]), sz)])"
| "tree_files bad dir (DirEntry n items) =
     (if n \<in> {''.'', ''..''} \<or> bad (abs_path (dir @ [n])) then []
      else concat (map (tree_files bad (dir @ [n])) items))"

definition share_files :: "(string \<Rightarrow> bool) \<Rightarrow> entry list \<Rightarrow> cache_record list" where
  "share_files bad items =
     (if bad ''/'' then [] else concat (map (tree_files bad []) items))"

text \<open>
  Names as a file server returns them: not empty, without a slash or a backslash.
\<close>

definition wf_name :: "string \<Rightarrow> bool" where
  "wf_name n = (n \<noteq> [] \<and> CHR ''/'' \<notin> set n \<and> backslash \<notin> set n)"

fun wf_entry :: "entry \<Rightarrow> bool" where
  "wf_entry (FileEntry n sz) = wf_name n"
| "wf_entry (DirEntry n items) = (wf_name n \<and> list_all wf_entry items)"

section \<open>Example inputs\<close>

definition initial_globals :: proc_globals where
  "initial_globals =
     \<lparr>default_proxy = None, socket_socket = StdSocket, smb_structs_socket = StdSocket,
      SUPPORT_NTLMv2 = True, SUPPORT_NTLMv1 = False\<rparr>"

text \<open>A host with the share \<open>S\<close>, where every probe succeeds, and an administrative share.\<close>

definition open_session :: smb_session where
  "open_session =
     \<lparr>connect_outcome = Some True, listShares_outcome = Some [''S'', ''IPC$''],
      listPath_raises = (\<lambda>_. False), createDirectory_raises = (\<lambda>_. False),
      deleteDirectory_raises = (\<lambda>_. False)\<rparr>"

text \<open>The tree of the specification's example: \<open>f1\<close> at the root, \<open>b/f2\<close>, \<open>b/c/f3\<close>.\<close>

definition example_share :: "entry list" where
  "example_share =
     [FileEntry ''f1'' 10,
      DirEntry ''b'' [FileEntry ''f2'' 20, DirEntry ''c'' [FileEntry ''f3'' 30]]]"

definition example_env :: remote_share where
  "example_env =
     \<lparr>root_listing = example_share, task_raises = (\<lambda>p. False),
      start_order = (\<lambda>l. [0, 1]), completion_order = (\<lambda>l. [1, 0]),
      submit_raises = (\<lambda>l. False)\<rparr>"

definition partial_env :: remote_share where
  "partial_env =
     \<lparr>root_listing =
        [FileEntry ''a'' 1, DirEntry ''b'' [FileEntry ''x'' 2, DirEntry ''d'' [FileEntry ''z'' 4]],
         DirEntry ''c'' [FileEntry ''y'' 3]],
      task_raises = (\<lambda>p. p = ''/b''),
      start_order = (\<lambda>l. [1, 1]), completion_order = (\<lambda>l. [2, 0]),
      submit_raises = (\<lambda>l. False)\<rparr>"



definition example_config :: config where
  "example_config =
     \<lparr>smb_host = ''10.0.0.5'', use_proxy = Some True, proxy_host = ''127.0.0.1'',
      proxy_port = 1080\<rparr>"

definition example_worker :: browser_worker where
  "example_worker = connected_worker example_config initial_globals"

definition ready_worker :: browser_worker where
  "ready_worker =
     example_worker\<lparr>is_cached := True,
       file_path_cache := [(''/f1'', 10), (''/b/f2'', 20), (''/b/c/f3'', 30)]\<rparr>"


text \<open>
  A worker in a process where another session has installed a different proxy as the
  process-wide default.
\<close>

definition foreign_proxy_worker :: browser_worker where
  "foreign_proxy_worker =
     example_worker\<lparr>globals :=
       browser_set_proxy
         \<lparr>smb_host = ''10.0.0.9'', use_proxy = Some True, proxy_host = ''127.0.0.1'',
          proxy_port = 9050\<rparr>
         initial_globals\<rparr>"

text \<open>The two chunks of the framing example, and a decoder that knows its payload.\<close>

definition chunk_a :: string where
  \<open>chunk_a = ''STATUS:a'' @ [newline] @ ''RESULT:{"host":''\<close>

definition chunk_b :: string where
  \<open>chunk_b = ''"h","status":"success","shares":[]}'' @ [newline]\<close>

definition example_payload :: string where
  \<open>example_payload = ''{"host":"h","status":"success","shares":[]}''\<close>

definition example_result :: json where
  "example_result =
     JObject [(''host'', JString ''h''), (''status'', JString ''success''), (''shares'', JArray [])]"

definition mock_json_loads :: "string \<Rightarrow> json option" where
  "mock_json_loads s = (if s = example_payload then Some example_result else None)"

definition empty_gui :: scan_gui where
  "empty_gui = \<lparr>scanner_buffer = [], status_bar = [], scan_model = [], results_decoded = [],
     gui_printed = []\<rparr>"

section \<open>Notions of the specification\<close>

text \<open>\<^verbatim>\<open>path.split('/')\<close>: the segments of a path; the last one is the final segment.\<close>

fun segments :: "string \<Rightarrow> string list" where
  "segments [] = [[]]"
| "segments (c # cs) =
     (if c = CHR ''/'' then [] # segments cs
      else (c # hd (segments cs)) # tl (segments cs))"

text \<open>Two window states that agree on everything but the line buffer.\<close>

definition same_view :: "scan_gui \<Rightarrow> scan_gui \<Rightarrow> bool" where
  "same_view st sa =
     (status_bar st = status_bar sa \<and> scan_model st = scan_model sa
      \<and> results_decoded st = results_decoded sa \<and> gui_printed st = gui_printed sa)"

section \<open>Properties of the scanner\<close>

lemma share_permissions_label:
  "fst (share_permissions conn quick_scan share t) =
     (if quick_scan then ''N/A (Quick Scan)''
      else if \<not> listPath_raises conn share
        then (if \<not> createDirectory_raises conn share \<and> \<not> deleteDirectory_raises conn share
              then ''READ, WRITE'' else ''READ'')
        else (if \<not> createDirectory_raises conn share \<and> \<not> deleteDirectory_raises conn share
              then ''WRITE'' else ''NO_ACCESS''))"
  by (simp add: share_permissions_def probe_read_def probe_write_def Let_def)

lemma share_permissions_quick_calls:
  "snd (share_permissions conn True share t) = []"
  by (simp add: share_permissions_def)

lemma enumerate_shares_info:
  "fst (enumerate_shares conn quick_scan u k names) =
     map (\<lambda>n. (n, fst (share_permissions conn quick_scan n (u 0))))
       (filter (\<lambda>n. \<not> endswith n ''$'') names)"
proof (induction names arbitrary: k)
  case Nil
  show ?case by simp
next
  case (Cons n names)
  have "fst (share_permissions conn quick_scan n (u k)) = fst (share_permissions conn quick_scan n (u 0))"
    by (simp only: share_permissions_label)
  with Cons show ?case
    by (simp add: split_beta Let_def)
qed

lemma enumerate_shares_quick_calls:
  "snd (enumerate_shares conn True u k names) = []"
  by (induction names arbitrary: k) (simp_all add: split_beta Let_def share_permissions_quick_calls)

text \<open>
  Claim C1, as the code has it. When the host accepts the connection and lists its shares,
  every share whose name does not end in \<open>$\<close> is reported once, with a label fixed by the
  probes: in full mode \<open>READ, WRITE\<close> when the root listing and the create-then-delete
  probe both succeed, \<open>READ\<close> when only the listing succeeds, \<open>WRITE\<close> when only the
  create-then-delete probe succeeds, \<open>NO_ACCESS\<close> when both raise; a probe that raises
  means the permission is absent. In quick mode the label is \<open>N/A (Quick Scan)\<close> and no
  probe call is made on the session.
\<close>

theorem check_smb_host_classification:
  assumes "connect_outcome conn = Some True"
    and "listShares_outcome conn = Some names"
    and "share \<in> set names"
    and "\<not> endswith share ''$''"
  shows "(\<exists>r. fst (check_smb_host conn u h quick_scan proxied port g) = Some r
           \<and> host r = h
           \<and> (\<forall>p. (share, p) \<in> set (shares r) \<longleftrightarrow> p =
               (if quick_scan then ''N/A (Quick Scan)''
                else if \<not> listPath_raises conn share
                  then (if \<not> createDirectory_raises conn share \<and> \<not> deleteDirectory_raises conn share
                        then ''READ, WRITE'' else ''READ'')
                  else (if \<not> createDirectory_raises conn share \<and> \<not> deleteDirectory_raises conn share
                        then ''WRITE'' else ''NO_ACCESS''))))
       \<and> (quick_scan \<longrightarrow>
           filter is_probe (fst (snd (check_smb_host conn u h quick_scan proxied port g))) = [])"
proof -
  let ?info = "fst (enumerate_shares conn quick_scan u 1 names)"
  have info: "?info = map (\<lambda>n. (n, fst (share_permissions conn quick_scan n (u 0))))
       (filter (\<lambda>n. \<not> endswith n ''$'') names)"
    by (rule enumerate_shares_info)
  have ne: "?info \<noteq> []"
    unfolding info using assms(3,4) by (auto simp: filter_empty_conv)
  have mem: "\<And>p. (share, p) \<in> set ?info \<longleftrightarrow> p = fst (share_permissions conn quick_scan share (u 0))"
    unfolding info using assms(3,4) by auto
  have first: "\<exists>r. fst (check_smb_host conn u h quick_scan proxied port g) = Some r
           \<and> host r = h
           \<and> (\<forall>p. (share, p) \<in> set (shares r) \<longleftrightarrow> p =
               (if quick_scan then ''N/A (Quick Scan)''
                else if \<not> listPath_raises conn share
                  then (if \<not> createDirectory_raises conn share \<and> \<not> deleteDirectory_raises conn share
                        then ''READ, WRITE'' else ''READ'')
                  else (if \<not> createDirectory_raises conn share \<and> \<not> deleteDirectory_raises conn share
                        then ''WRITE'' else ''NO_ACCESS'')))"
    using ne mem
    by (simp add: check_smb_host_def assms(1,2) split_beta Let_def share_permissions_label
        del: enumerate_shares.simps)
  have second: "filter is_probe (fst (snd (check_smb_host conn u h quick_scan proxied port g))) = []"
    if "quick_scan"
    using that enumerate_shares_quick_calls [of conn u 1 names]
    by (simp add: check_smb_host_def assms(1,2) split_beta Let_def is_probe_def)
  from first second show ?thesis by blast
qed

theorem check_smb_host_classification_witness:
  "connect_outcome open_session = Some True
   \<and> listShares_outcome open_session = Some [''S'', ''IPC$'']
   \<and> ''S'' \<in> set [''S'', ''IPC$'']
   \<and> \<not> endswith ''S'' ''$''
   \<and> (\<exists>r. fst (check_smb_host open_session (\<lambda>k. ''00c0ffee'') ''10.0.0.5'' False True 1080
                 initial_globals) = Some r
          \<and> host r = ''10.0.0.5''
          \<and> (\<forall>p. (''S'', p) \<in> set (shares r) \<longleftrightarrow> p = ''READ, WRITE''))"
  using check_smb_host_classification [of open_session "[''S'', ''IPC$'']" "''S''"
      "\<lambda>k. ''00c0ffee''" "''10.0.0.5''" False True 1080 initial_globals]
  by (simp add: open_session_def endswith_def)

text \<open>
  Claim C1 as stated fails on the labels: with both probes succeeding the share is not
  reported as \<open>READ_WRITE\<close> but as \<open>READ, WRITE\<close>, and in quick mode not as \<open>UNKNOWN\<close>
  but as \<open>N/A (Quick Scan)\<close>.
\<close>

theorem check_smb_host_label_counterexample:
  "fst (check_smb_host open_session (\<lambda>k. ''00c0ffee'') ''10.0.0.5'' False True 1080 initial_globals)
     = Some \<lparr>host = ''10.0.0.5'', status = ''success'', shares = [(''S'', ''READ, WRITE'')]\<rparr>
   \<and> fst (check_smb_host open_session (\<lambda>k. ''00c0ffee'') ''10.0.0.5'' False True 1080 initial_globals)
     \<noteq> Some \<lparr>host = ''10.0.0.5'', status = ''success'', shares = [(''S'', ''READ_WRITE'')]\<rparr>
   \<and> fst (check_smb_host open_session (\<lambda>k. ''00c0ffee'') ''10.0.0.5'' True True 1080 initial_globals)
     = Some \<lparr>host = ''10.0.0.5'', status = ''success'', shares = [(''S'', ''N/A (Quick Scan)'')]\<rparr>
   \<and> fst (check_smb_host open_session (\<lambda>k. ''00c0ffee'') ''10.0.0.5'' True True 1080 initial_globals)
     \<noteq> Some \<lparr>host = ''10.0.0.5'', status = ''success'', shares = [(''S'', ''UNKNOWN'')]\<rparr>"
  by (simp add: check_smb_host_def open_session_def endswith_def share_permissions_def
      probe_read_def probe_write_def Let_def)

section \<open>Properties of the cache build\<close>

lemma frontier_files_simps [simp]:
  "frontier_files bad [] = {#}"
  "frontier_files bad (t # ts) = mset (task_files bad t) + frontier_files bad ts"
  "frontier_files bad (xs @ ys) = frontier_files bad xs + frontier_files bad ys"
  by (simp_all add: frontier_files_def)

lemma partition_items_files:
  "mset (fst (partition_items path items)) + frontier_files bad (snd (partition_items path items))
     = mset (concat (map (walk_files bad path) items))"
proof (induction items)
  case Nil
  show ?case by simp
next
  case (Cons item items)
  then show ?case
    by (cases item) (simp_all add: split_beta Let_def task_files_def full_path_def)
qed

lemma fetch_path_contents_files:
  "is_running w \<Longrightarrow>
     result_files (task_raises env) (fst (fetch_path_contents env task w))
       = mset (task_files (task_raises env) task)"
  using partition_items_files [of "fst task" "snd task" "task_raises env"]
  by (simp add: fetch_path_contents_def result_files_def task_files_def Let_def)

lemma fetch_path_contents_frame [simp]:
  "is_running (snd (fetch_path_contents env task w)) = is_running w"
  "file_path_cache (snd (fetch_path_contents env task w)) = file_path_cache w"
  "is_caching (snd (fetch_path_contents env task w)) = is_caching w"
  "is_cached (snd (fetch_path_contents env task w)) = is_cached w"
  "smb_connection (snd (fetch_path_contents env task w)) = smb_connection w"
  by (simp_all add: fetch_path_contents_def Let_def)

lemma submit_all_frame [simp]:
  "is_running (snd (submit_all env dirs w)) = is_running w"
  "file_path_cache (snd (submit_all env dirs w)) = file_path_cache w"
  "is_caching (snd (submit_all env dirs w)) = is_caching w"
  "is_cached (snd (submit_all env dirs w)) = is_cached w"
  "smb_connection (snd (submit_all env dirs w)) = smb_connection w"
  by (induction dirs arbitrary: w; simp add: split_beta Let_def)+

lemma submit_all_files:
  "is_running w \<Longrightarrow>
     (\<Sum>r\<leftarrow>fst (submit_all env dirs w). result_files (task_raises env) r)
       = frontier_files (task_raises env) dirs"
proof (induction dirs arbitrary: w)
  case Nil
  show ?case by simp
next
  case (Cons task dirs)
  then show ?case
    by (simp add: split_beta Let_def fetch_path_contents_files)
qed

lemma sum_list_mset_as_completed:
  fixes f :: "'a \<Rightarrow> 'b multiset"
  shows "(\<Sum>x\<leftarrow>as_completed ks xs. f x) = (\<Sum>x\<leftarrow>xs. f x)"
proof -
  have "sum_mset (image_mset f (mset (as_completed ks xs))) = sum_mset (image_mset f (mset xs))"
    by (simp only: mset_as_completed)
  then show ?thesis by (simp only: sum_mset_sum_list mset_map [symmetric])
qed

lemma collect_results_frame [simp]:
  "is_running (fst (collect_results rs w nxt)) = is_running w"
  "is_caching (fst (collect_results rs w nxt)) = is_caching w"
  "is_cached (fst (collect_results rs w nxt)) = is_cached w"
  "smb_connection (fst (collect_results rs w nxt)) = smb_connection w"
  by (induction rs w nxt rule: collect_results.induct; simp split: sum.splits exn.splits)+

lemma collect_results_files:
  "is_running w \<Longrightarrow>
     mset (file_path_cache (fst (collect_results rs w nxt)))
       + frontier_files bad (snd (collect_results rs w nxt))
     = mset (file_path_cache w) + frontier_files bad nxt + (\<Sum>r\<leftarrow>rs. result_files bad r)"
proof (induction rs w nxt rule: collect_results.induct)
  case (1 w nxt)
  show ?case by simp
next
  case (2 r rs w nxt)
  show ?case
  proof (cases r)
    case (Inl e)
    obtain m where "e = Exception m" by (cases e)
    with 2(1) [of e m] 2(3) Inl show ?thesis by (simp add: result_files_def)
  next
    case (Inr fs)
    with 2(2) [of fs "fst fs" "snd fs"] 2(3) show ?thesis
      by (simp add: result_files_def split_beta)
  qed
qed

lemma run_level_frame [simp]:
  "is_running (fst (run_level env lvl dirs w)) = is_running w"
  "is_caching (fst (run_level env lvl dirs w)) = is_caching w"
  "is_cached (fst (run_level env lvl dirs w)) = is_cached w"
  "smb_connection (fst (run_level env lvl dirs w)) = smb_connection w"
  by (simp_all add: run_level_def split_beta)

lemma run_level_files:
  assumes "is_running w"
  shows "mset (file_path_cache (fst (run_level env lvl dirs w)))
           + frontier_files (task_raises env) (snd (run_level env lvl dirs w))
         = mset (file_path_cache w) + frontier_files (task_raises env) dirs"
proof -
  define tasks where "tasks = as_completed (start_order env lvl) dirs"
  let ?rs = "fst (submit_all env tasks w)"
  let ?w1 = "snd (submit_all env tasks w)"
  have run: "is_running ?w1" using assms by simp
  have "mset (file_path_cache (fst (run_level env lvl dirs w)))
           + frontier_files (task_raises env) (snd (run_level env lvl dirs w))
        = mset (file_path_cache ?w1) + frontier_files (task_raises env) []
           + (\<Sum>r\<leftarrow>as_completed (completion_order env lvl) ?rs. result_files (task_raises env) r)"
    using collect_results_files [OF run] by (simp add: run_level_def split_beta tasks_def)
  also have "\<dots> = mset (file_path_cache w) + (\<Sum>r\<leftarrow>?rs. result_files (task_raises env) r)"
    by (simp add: sum_list_mset_as_completed)
  also have "\<dots> = mset (file_path_cache w) + frontier_files (task_raises env) tasks"
    using assms by (simp add: submit_all_files)
  also have "frontier_files (task_raises env) tasks = frontier_files (task_raises env) dirs"
    by (simp add: tasks_def frontier_files_def sum_list_mset_as_completed)
  finally show ?thesis .
qed


lemma build_levels_files:
  assumes "is_running w" and "\<forall>l. \<not> submit_raises env l"
  shows "fst (build_levels env lvl dirs w) = None
       \<and> mset (file_path_cache (snd (build_levels env lvl dirs w)))
          = mset (file_path_cache w) + frontier_files (task_raises env) dirs"
  using assms
proof (induction env lvl dirs w rule: build_levels.induct)
  case (1 env lvl dirs w)
  show ?case
  proof (cases "dirs = []")
    case True
    then show ?thesis by (simp add: build_levels.simps [of env lvl "[]" w])
  next
    case False
    let ?w' = "fst (run_level env lvl dirs w)" and ?next = "snd (run_level env lvl dirs w)"
    have IH: "fst (build_levels env (Suc lvl) ?next ?w') = None
       \<and> mset (file_path_cache (snd (build_levels env (Suc lvl) ?next ?w')))
          = mset (file_path_cache ?w') + frontier_files (task_raises env) ?next"
      using 1 False by simp
    have unfold: "build_levels env lvl dirs w = build_levels env (Suc lvl) ?next ?w'"
      using False 1(2,3) by (simp add: build_levels.simps [of env lvl dirs w] split_beta)
    show ?thesis
      using IH run_level_files [OF 1(2), of env lvl dirs] by (simp add: unfold)
  qed
qed

lemma py_replace_absent: "c \<notin> set s \<Longrightarrow> py_replace [c] new s = s"
proof (induction s)
  case Nil
  show ?case by (simp add: py_replace.simps [of _ _ "[]"])
next
  case (Cons x s)
  then show ?case
    by (auto simp: py_replace.simps [of "[c]" new "x # s"] startswith_def)
qed

lemma abs_path_snoc: "abs_path (dir @ [n]) = (if dir = [] then [] else abs_path dir) @ CHR ''/'' # n"
  by (simp add: abs_path_def)

lemma set_abs_path: "set (abs_path dir) \<subseteq> insert CHR ''/'' (\<Union>(set ` set dir))"
  by (auto simp: abs_path_def)

lemma abs_path_last:
  "dir \<noteq> [] \<Longrightarrow> list_all wf_name dir \<Longrightarrow> abs_path dir \<noteq> [] \<and> last (abs_path dir) \<noteq> CHR ''/''"
proof (induction dir rule: rev_induct)
  case Nil
  then show ?case by simp
next
  case (snoc n dir)
  then have "wf_name n" by simp
  then have "n \<noteq> []" and "last n \<noteq> CHR ''/''"
    by (auto simp: wf_name_def dest: last_in_set)
  then show ?case by (simp add: abs_path_snoc)
qed

lemma endswith_slash: "endswith a ''/'' \<longleftrightarrow> a \<noteq> [] \<and> last a = CHR ''/''"
proof (cases a rule: rev_cases)
  case Nil
  then show ?thesis by (simp add: endswith_def)
next
  case (snoc ys y)
  then show ?thesis by (auto simp: endswith_def)
qed

lemma full_path_abs:
  assumes "list_all wf_name dir" and "wf_name n"
  shows "full_path (abs_path dir) n = abs_path (dir @ [n])"
proof -
  have n: "n \<noteq> []" "hd n \<noteq> CHR ''/''" "backslash \<notin> set n"
    using assms(2) by (auto simp: wf_name_def dest: hd_in_set)
  then have nostart: "\<not> startswith n ''/''"
    by (cases n) (auto simp: startswith_def)
  have join: "os_path_join (abs_path dir) n = abs_path (dir @ [n])"
  proof (cases "dir = []")
    case True
    then show ?thesis
      using nostart by (simp add: os_path_join_def abs_path_def endswith_def)
  next
    case False
    with abs_path_last [OF False assms(1)] nostart show ?thesis
      by (simp add: os_path_join_def endswith_slash abs_path_snoc)
  qed
  have "backslash \<notin> set (abs_path (dir @ [n]))"
    using set_abs_path [of "dir @ [n]"] assms n(3)
    by (auto simp: wf_name_def list_all_iff)
  then show ?thesis
    by (simp add: full_path_def join py_replace_absent)
qed

lemma walk_files_tree_files:
  "list_all wf_name dir \<Longrightarrow> wf_entry e \<Longrightarrow>
     walk_files bad (abs_path dir) e = tree_files bad dir e"
proof (induction bad dir e rule: tree_files.induct)
  case (1 bad dir n sz)
  then show ?case by (simp add: full_path_abs)
next
  case (2 bad dir n items)
  then have fp: "full_path (abs_path dir) n = abs_path (dir @ [n])"
    by (simp add: full_path_abs)
  have "concat (map (walk_files bad (abs_path (dir @ [n]))) items)
          = concat (map (tree_files bad (dir @ [n])) items)"
    if "n \<notin> {''.'', ''..''}" "\<not> bad (abs_path (dir @ [n]))"
    using 2 that by (intro arg_cong [where f = concat] map_ext) (auto simp: list_all_iff)
  then show ?case by (auto simp: fp)
qed

lemma root_frontier_files:
  assumes "list_all wf_entry items"
  shows "frontier_files bad [(''/'', items)] = mset (share_files bad items)"
proof -
  have "concat (map (walk_files bad ''/'') items) = concat (map (tree_files bad []) items)"
    using assms walk_files_tree_files [of "[]" _ bad]
    by (intro arg_cong [where f = concat] map_ext) (auto simp: list_all_iff abs_path_def)
  then show ?thesis
    by (simp add: task_files_def share_files_def)
qed

lemma tree_files_paths:
  "list_all wf_name dir \<Longrightarrow> wf_entry e \<Longrightarrow> (p, sz) \<in> set (tree_files bad dir e) \<Longrightarrow>
     startswith p ''/'' \<and> backslash \<notin> set p"
proof (induction bad dir e rule: tree_files.induct)
  case (1 bad dir n sz')
  then have p: "p = abs_path (dir @ [n])" by (auto split: if_splits)
  have "backslash \<notin> set (abs_path (dir @ [n]))"
    using set_abs_path [of "dir @ [n]"] 1(1,2) by (auto simp: wf_name_def list_all_iff)
  moreover have "startswith (abs_path (dir @ [n])) ''/''"
    by (cases dir) (simp_all add: abs_path_def startswith_def)
  ultimately show ?case by (simp add: p)
next
  case (2 bad dir n items)
  then show ?case by (auto simp: list_all_iff split: if_splits)
qed

lemma share_files_paths:
  "list_all wf_entry items \<Longrightarrow> (p, sz) \<in> set (share_files bad items) \<Longrightarrow>
     startswith p ''/'' \<and> backslash \<notin> set p"
  using tree_files_paths [of "[]" _ p sz bad]
  by (auto simp: share_files_def list_all_iff split: if_splits)

lemma start_background_caching_ready:
  assumes "\<forall>l. \<not> submit_raises env l"
    and "smb_connection w" and "is_running w" and "\<not> is_cached w" and "\<not> is_caching w"
  shows "is_cached (start_background_caching env w)
       \<and> \<not> is_caching (start_background_caching env w)
       \<and> mset (file_path_cache (start_background_caching env w))
          = frontier_files (task_raises env) [(''/'', root_listing env)]"
proof -
  define w3 where "w3 = (emit_status ''Starting background file indexing...''
      (w\<lparr>is_caching := True\<rparr>))\<lparr>file_path_cache := []\<rparr>"
  have run: "is_running w3" using assms(3) by (simp add: w3_def emit_status_def)
  obtain w4 where b: "build_cache_parallel env w3 = (None, w4)"
    and c: "mset (file_path_cache w4) = frontier_files (task_raises env) [(''/'', root_listing env)]"
    using build_levels_files [OF run assms(1), of 0 "[(''/'', root_listing env)]"]
    by (cases "build_cache_parallel env w3") (simp add: build_cache_parallel_def w3_def emit_status_def)
  have "start_background_caching env w
          = (emit_status ''Background file indexing is complete. Search is now available.''
               (w4\<lparr>is_cached := True\<rparr>))\<lparr>is_caching := False\<rparr>"
    using assms(2-5) b by (simp add: start_background_caching_def Let_def w3_def)
  then show ?thesis using c by (simp add: emit_status_def)
qed

lemma segments_no_slash: "CHR ''/'' \<notin> set p \<Longrightarrow> segments p = [p]"
  by (induction p) auto

lemma segments_not_Nil [simp]: "segments p \<noteq> []"
  by (cases p) auto

lemma segments_slash: "CHR ''/'' \<in> set p \<Longrightarrow> tl (segments p) \<noteq> []"
  by (induction p) (auto simp: segments_no_slash)

lemma basename_Cons:
  "basename (c # cs) = (if CHR ''/'' \<in> set cs then basename cs
                        else if c = CHR ''/'' then cs else c # cs)"
  by (auto simp: basename_def takeWhile_append takeWhile_eq_all_conv [THEN iffD2])

lemma basename_last_segment: "basename p = last (segments p)"
proof (induction p)
  case Nil
  show ?case by (simp add: basename_def)
next
  case (Cons c cs)
  show ?case
  proof (cases "CHR ''/'' \<in> set cs")
    case True
    then have "tl (segments cs) \<noteq> []" by (rule segments_slash)
    with True Cons show ?thesis
      by (cases "segments cs") (auto simp: basename_Cons)
  next
    case False
    then show ?thesis by (simp add: basename_Cons segments_no_slash)
  qed
qed

text \<open>
  The schedules of \<open>as_completed\<close> produce every order of the futures of a level, and
  nothing but orders of them (\<open>mset_as_completed\<close>).
\<close>

lemma as_completed_any_order:
  "mset ys = mset xs \<Longrightarrow> \<exists>ks. as_completed ks xs = ys"
proof (induction ys arbitrary: xs)
  case Nil
  then show ?case by (intro exI [of _ "[]"]) simp
next
  case (Cons y ys)
  then have "y \<in> set xs" by (metis list.set_intros(1) set_mset_mset)
  then obtain i where i: "i < length xs" "xs ! i = y" by (auto simp: in_set_conv_nth)
  define xs' where "xs' = take i xs @ drop (Suc i) xs"
  have "mset xs = add_mset y (mset xs')"
    using i id_take_nth_drop [of i xs] by (simp add: xs'_def) (metis mset.simps(2) mset_append union_mset_add_mset_right)
  with Cons.prems have "mset ys = mset xs'" by simp
  from Cons.IH [OF this] obtain ks where ks: "as_completed ks xs' = ys" by blast
  obtain x rest where xs: "xs = x # rest" using i(1) by (cases xs) auto
  have "as_completed (i # ks) xs = y # ys"
    using i ks unfolding xs xs'_def by (simp add: Let_def del: take_Cons' drop_Suc_Cons nth_Cons')
  then show ?case by blast
qed

text \<open>
  Claim C3. For every share tree with names as a file server returns them, when no listing
  fails and the pool accepts every task, a build started on a connected, running, idle
  worker ends with the worker ready, and its cache holds exactly one \<open>(path, size)\<close>
  record for every file reachable from the root and no record for a directory, each path
  rooted at \<open>/\<close> with forward slashes only. The orders in which the pool runs the tasks
  of a level and in which they complete (\<open>start_order\<close>, \<open>completion_order\<close>, which also
  stand for the width of the pool) are arbitrary and do not matter.
\<close>

theorem build_cache_complete:
  assumes "list_all wf_entry (root_listing env)"
    and "\<forall>p. \<not> task_raises env p"
    and "\<forall>l. \<not> submit_raises env l"
    and "smb_connection w" and "is_running w" and "\<not> is_cached w" and "\<not> is_caching w"
  shows "is_cached (start_background_caching env w)
       \<and> \<not> is_caching (start_background_caching env w)
       \<and> mset (file_path_cache (start_background_caching env w))
          = mset (share_files (\<lambda>p. False) (root_listing env))
       \<and> (\<forall>(p, sz) \<in> set (file_path_cache (start_background_caching env w)).
            startswith p ''/'' \<and> backslash \<notin> set p)"
proof -
  let ?w = "start_background_caching env w"
  have bad: "task_raises env = (\<lambda>p. False)" using assms(2) by (simp add: fun_eq_iff)
  have ready: "is_cached ?w \<and> \<not> is_caching ?w
     \<and> mset (file_path_cache ?w) = frontier_files (task_raises env) [(''/'', root_listing env)]"
    using assms(3-7) by (rule start_background_caching_ready)
  then have cache: "mset (file_path_cache ?w) = mset (share_files (\<lambda>p. False) (root_listing env))"
    using root_frontier_files [OF assms(1), of "\<lambda>p. False"] by (simp add: bad)
  then have "set (file_path_cache ?w) = set (share_files (\<lambda>p. False) (root_listing env))"
    by (rule mset_eq_setD)
  then have "\<forall>(p, sz) \<in> set (file_path_cache ?w). startswith p ''/'' \<and> backslash \<notin> set p"
    using share_files_paths [OF assms(1)] by blast
  with ready cache show ?thesis by blast
qed

theorem build_cache_complete_witness:
  "list_all wf_entry (root_listing example_env)
   \<and> (\<forall>p. \<not> task_raises example_env p)
   \<and> (\<forall>l. \<not> submit_raises example_env l)
   \<and> smb_connection example_worker \<and> is_running example_worker
   \<and> \<not> is_cached example_worker \<and> \<not> is_caching example_worker
   \<and> is_cached (start_background_caching example_env example_worker)
   \<and> mset (file_path_cache (start_background_caching example_env example_worker))
      = {#(''/f1'', 10), (''/b/f2'', 20), (''/b/c/f3'', 30)#}"
proof -
  have h: "list_all wf_entry (root_listing example_env)" "\<forall>p. \<not> task_raises example_env p"
    "\<forall>l. \<not> submit_raises example_env l" "smb_connection example_worker"
    "is_running example_worker" "\<not> is_cached example_worker" "\<not> is_caching example_worker"
    by (simp_all add: example_env_def example_share_def example_worker_def connected_worker_def
        wf_name_def)
  have files: "share_files (\<lambda>p. False) (root_listing example_env)
      = [(''/f1'', 10), (''/b/f2'', 20), (''/b/c/f3'', 30)]"
    by (simp add: share_files_def example_env_def example_share_def abs_path_def)
  show ?thesis
    using h build_cache_complete [OF h] by (simp add: files)
qed

text \<open>
  Claim C7. When the listing of some paths raises during a build, the build still completes
  and the worker becomes ready; the cache holds the files reachable through the listings
  that succeeded, and nothing below a path whose listing failed.
\<close>

theorem build_cache_partial_failure:
  assumes "list_all wf_entry (root_listing env)"
    and "\<forall>l. \<not> submit_raises env l"
    and "smb_connection w" and "is_running w" and "\<not> is_cached w" and "\<not> is_caching w"
  shows "is_cached (start_background_caching env w)
       \<and> \<not> is_caching (start_background_caching env w)
       \<and> mset (file_path_cache (start_background_caching env w))
          = mset (share_files (task_raises env) (root_listing env))"
  using start_background_caching_ready [OF assms(2-6)] root_frontier_files [OF assms(1)]
  by simp

theorem build_cache_partial_failure_witness:
  "list_all wf_entry (root_listing partial_env)
   \<and> (\<forall>l. \<not> submit_raises partial_env l)
   \<and> smb_connection example_worker \<and> is_running example_worker
   \<and> \<not> is_cached example_worker \<and> \<not> is_caching example_worker
   \<and> task_raises partial_env ''/b''
   \<and> is_cached (start_background_caching partial_env example_worker)
   \<and> \<not> is_caching (start_background_caching partial_env example_worker)
   \<and> mset (file_path_cache (start_background_caching partial_env example_worker))
      = {#(''/a'', 1), (''/c/y'', 3)#}"
proof -
  have h: "list_all wf_entry (root_listing partial_env)"
    "\<forall>l. \<not> submit_raises partial_env l" "smb_connection example_worker"
    "is_running example_worker" "\<not> is_cached example_worker" "\<not> is_caching example_worker"
    by (simp_all add: partial_env_def example_worker_def connected_worker_def wf_name_def)
  have files: "share_files (task_raises partial_env) (root_listing partial_env)
      = [(''/a'', 1), (''/c/y'', 3)]"
    by (simp add: share_files_def partial_env_def abs_path_def)
  show ?thesis
    using h build_cache_partial_failure [OF h] by (simp add: files) (simp add: partial_env_def)
qed

text \<open>
  Claim C6. A build requested while a build is in progress is a no-op: the worker is left
  exactly as it was, so the cache is not cleared and no path is listed. A second request
  that arrives after the first build has completed is a no-op as well, so that two
  requests in succession walk the tree once.
\<close>

theorem start_background_caching_in_progress:
  "(is_caching w \<longrightarrow> start_background_caching env w = w)
   \<and> ((\<forall>l. \<not> submit_raises env l) \<and> smb_connection w \<and> is_running w
        \<and> \<not> is_cached w \<and> \<not> is_caching w \<longrightarrow>
      start_background_caching env' (start_background_caching env w)
        = start_background_caching env w)"
proof -
  have busy: "start_background_caching env w = w" if "is_caching w"
    using that by (simp add: start_background_caching_def)
  have again: "start_background_caching env' (start_background_caching env w)
        = start_background_caching env w"
    if "\<forall>l. \<not> submit_raises env l" "smb_connection w" "is_running w"
      "\<not> is_cached w" "\<not> is_caching w"
  proof -
    have "is_cached (start_background_caching env w)"
      using start_background_caching_ready [OF that] by simp
    then show ?thesis by (simp add: start_background_caching_def)
  qed
  from busy again show ?thesis by blast
qed

theorem start_background_caching_in_progress_witness:
  "is_caching (example_worker\<lparr>is_caching := True, file_path_cache := [(''/f1'', 10)]\<rparr>)
   \<and> file_path_cache (start_background_caching example_env
        (example_worker\<lparr>is_caching := True, file_path_cache := [(''/f1'', 10)]\<rparr>)) = [(''/f1'', 10)]
   \<and> listed_paths (start_background_caching example_env
        (example_worker\<lparr>is_caching := True, file_path_cache := [(''/f1'', 10)]\<rparr>)) = []
   \<and> (\<forall>l. \<not> submit_raises example_env l) \<and> smb_connection example_worker
   \<and> is_running example_worker \<and> \<not> is_cached example_worker \<and> \<not> is_caching example_worker
   \<and> listed_paths (start_background_caching example_env
        (start_background_caching example_env example_worker)) = [''/'', ''/b'', ''/b/c'']"
proof -
  let ?busy = "example_worker\<lparr>is_caching := True, file_path_cache := [(''/f1'', 10)]\<rparr>"
  have h: "is_caching ?busy" "\<forall>l. \<not> submit_raises example_env l" "smb_connection example_worker"
    "is_running example_worker" "\<not> is_cached example_worker" "\<not> is_caching example_worker"
    by (simp_all add: example_worker_def connected_worker_def example_env_def)
  have once: "listed_paths (start_background_caching example_env example_worker)
      = [''/'', ''/b'', ''/b/c'']"
    by code_simp
  have a: "start_background_caching example_env ?busy = ?busy"
    using start_background_caching_in_progress [of ?busy example_env example_env] h(1) by blast
  have b: "start_background_caching example_env
        (start_background_caching example_env example_worker)
      = start_background_caching example_env example_worker"
    using start_background_caching_in_progress [of example_worker example_env example_env] h(2-6)
    by blast
  show ?thesis
    unfolding a b once using h by (simp add: example_worker_def connected_worker_def)
qed






section \<open>Properties of the search\<close>

lemma fetch_path_contents_signals [simp]:
  "search_finished (snd (fetch_path_contents env task w)) = search_finished w"
  by (simp add: fetch_path_contents_def Let_def)

lemma submit_all_signals [simp]:
  "search_finished (snd (submit_all env dirs w)) = search_finished w"
  by (induction dirs arbitrary: w) (simp_all add: split_beta Let_def)

lemma collect_results_signals [simp]:
  "search_finished (fst (collect_results rs w nxt)) = search_finished w"
  by (induction rs w nxt rule: collect_results.induct) (simp_all split: sum.splits exn.splits)

lemma build_levels_signals:
  "search_finished (snd (build_levels env lvl dirs w)) = search_finished w"
proof (induction env lvl dirs w rule: build_levels.induct)
  case (1 env lvl dirs w)
  show ?case
  proof (cases "dirs = [] \<or> \<not> is_running w \<or> submit_raises env lvl")
    case True
    then show ?thesis by (auto simp: build_levels.simps [of env lvl dirs w])
  next
    case False
    with 1 [of "fst (run_level env lvl dirs w)" "snd (run_level env lvl dirs w)"]
    show ?thesis
      by (simp add: build_levels.simps [of env lvl dirs w] split_beta run_level_def)
  qed
qed

text \<open>
  Claim C2 as stated fails: a first search on an idle worker does not return an empty
  result; it returns the matches.
\<close>

theorem do_search_first_search_counterexample:
  "smb_connection example_worker \<and> \<not> is_cached example_worker \<and> \<not> is_caching example_worker
   \<and> search_finished example_worker = []
   \<and> search_finished (do_search example_env ''f2'' example_worker) = [[(''/b/f2'', 20)]]
   \<and> search_finished (do_search example_env ''f2'' example_worker) \<noteq> [[]]"
  by code_simp

text \<open>
  Claim C2, as the code has it. A search invoked on a connected, running, idle worker
  builds the cache within the same invocation and then emits the matches found in the
  cache just built; the worker is ready afterwards, so no second search is needed.
\<close>

theorem do_search_first_search:
  assumes "list_all wf_entry (root_listing env)"
    and "\<forall>l. \<not> submit_raises env l"
    and "smb_connection w" and "is_running w" and "\<not> is_cached w" and "\<not> is_caching w"
  shows "is_cached (do_search env keyword w)
       \<and> \<not> is_caching (do_search env keyword w)
       \<and> mset (file_path_cache (do_search env keyword w))
          = mset (share_files (task_raises env) (root_listing env))
       \<and> search_finished (do_search env keyword w)
          = search_finished w @ [search_cache keyword (file_path_cache (do_search env keyword w))]"
proof -
  define w3 where "w3 = (emit_status ''First search: building file index... This may take a moment.''
      (w\<lparr>is_caching := True\<rparr>))\<lparr>file_path_cache := []\<rparr>"
  have run: "is_running w3" using assms(4) by (simp add: w3_def emit_status_def)
  obtain w4 where b: "build_cache_parallel env w3 = (None, w4)"
    and c: "mset (file_path_cache w4) = frontier_files (task_raises env) [(''/'', root_listing env)]"
    and s: "search_finished w4 = search_finished w"
    using build_levels_files [OF run assms(2), of 0 "[(''/'', root_listing env)]"]
      build_levels_signals [of env 0 "[(''/'', root_listing env)]" w3]
    by (cases "build_cache_parallel env w3") (simp add: build_cache_parallel_def w3_def emit_status_def)
  have "do_search env keyword w =
      emit_search_finished (search_cache keyword (file_path_cache w4))
        (emit_status (''Searching for '' @ [CHR 0x27] @ keyword @ [CHR 0x27] @ '' in cache...'')
           (w4\<lparr>is_cached := True, is_caching := False\<rparr>))"
    using assms(3-6) b
    by (simp add: do_search_def Let_def w3_def emit_status_def emit_search_finished_def)
  then show ?thesis
    using c s root_frontier_files [OF assms(1), of "task_raises env"]
    by (simp add: emit_status_def emit_search_finished_def)
qed

theorem do_search_first_search_witness:
  "list_all wf_entry (root_listing example_env)
   \<and> (\<forall>l. \<not> submit_raises example_env l)
   \<and> smb_connection example_worker \<and> is_running example_worker
   \<and> \<not> is_cached example_worker \<and> \<not> is_caching example_worker
   \<and> is_cached (do_search example_env ''F2'' example_worker)
   \<and> mset (file_path_cache (do_search example_env ''F2'' example_worker))
      = {#(''/f1'', 10), (''/b/f2'', 20), (''/b/c/f3'', 30)#}"
proof -
  have h: "list_all wf_entry (root_listing example_env)"
    "\<forall>l. \<not> submit_raises example_env l" "smb_connection example_worker"
    "is_running example_worker" "\<not> is_cached example_worker" "\<not> is_caching example_worker"
    by (simp_all add: example_env_def example_share_def example_worker_def connected_worker_def
        wf_name_def)
  have files: "share_files (task_raises example_env) (root_listing example_env)
      = [(''/f1'', 10), (''/b/f2'', 20), (''/b/c/f3'', 30)]"
    by (simp add: share_files_def example_env_def example_share_def abs_path_def)
  show ?thesis
    using h do_search_first_search [OF h, of "''F2''"] by (simp add: files)
qed

text \<open>
  Claim C4. On a ready worker, a search emits exactly the cache entries whose final path
  segment contains the keyword, both lowered, in the order of the cache; the cache is left
  as it was; keywords that differ only in case give the same result; a keyword that no
  entry matches gives the empty list.
\<close>

theorem search_results:
  assumes "smb_connection w" and "is_cached w" and "\<not> is_caching w"
  shows "search_finished (do_search env keyword w)
           = search_finished w @
             [filter (\<lambda>(path, size). sublist (lower keyword) (lower (last (segments path))))
                (file_path_cache w)]
       \<and> file_path_cache (do_search env keyword w) = file_path_cache w
       \<and> (lower keyword' = lower keyword \<longrightarrow>
            last (search_finished (do_search env keyword' w))
              = last (search_finished (do_search env keyword w)))
       \<and> ((\<forall>(path, size) \<in> set (file_path_cache w).
              \<not> sublist (lower keyword) (lower (last (segments path)))) \<longrightarrow>
            last (search_finished (do_search env keyword w)) = [])"
proof -
  have run: "\<And>k. do_search env k w =
      emit_search_finished (search_cache k (file_path_cache w))
        (emit_status (''Searching for '' @ [CHR 0x27] @ k @ [CHR 0x27] @ '' in cache...'') w)"
    using assms by (simp add: do_search_def Let_def emit_status_def emit_search_finished_def)
  have sc: "\<And>k. search_cache k (file_path_cache w)
      = filter (\<lambda>(path, size). sublist (lower k) (lower (last (segments path)))) (file_path_cache w)"
    by (simp add: search_cache_def basename_last_segment)
  show ?thesis
    by (auto simp: run sc emit_status_def emit_search_finished_def filter_empty_conv)
qed

theorem search_results_witness:
  "smb_connection ready_worker \<and> is_cached ready_worker \<and> \<not> is_caching ready_worker
   \<and> search_finished (do_search example_env ''f2'' ready_worker) = [[(''/b/f2'', 20)]]
   \<and> search_finished (do_search example_env ''F2'' ready_worker) = [[(''/b/f2'', 20)]]
   \<and> search_finished (do_search example_env ''zzz'' ready_worker) = [[]]"
proof -
  have h: "smb_connection ready_worker" "is_cached ready_worker" "\<not> is_caching ready_worker"
    by (simp_all add: ready_worker_def example_worker_def connected_worker_def)
  have c: "file_path_cache ready_worker = [(''/f1'', 10), (''/b/f2'', 20), (''/b/c/f3'', 30)]"
    "search_finished ready_worker = []"
    by (simp_all add: ready_worker_def example_worker_def connected_worker_def)
  have l: "lower ''F2'' = ''f2''" "lower ''f2'' = ''f2''" "lower ''f1'' = ''f1''"
    "lower ''f3'' = ''f3''" "lower ''zzz'' = ''zzz''"
    by code_simp+
  have s: "sublist ''f2'' ''f2''" "\<not> sublist ''f2'' ''f1''" "\<not> sublist ''f2'' ''f3''"
    "\<not> sublist ''zzz'' ''f1''" "\<not> sublist ''zzz'' ''f2''" "\<not> sublist ''zzz'' ''f3''"
    by code_simp+
  show ?thesis
    using h search_results [OF h, of example_env "''f2''" "''f2''"]
      search_results [OF h, of example_env "''F2''" "''F2''"]
      search_results [OF h, of example_env "''zzz''" "''zzz''"]
    by (simp add: c l s)
qed

section \<open>Properties of the proxy settings\<close>

text \<open>
  Claim C5 as stated fails: a listing task run in a process whose default proxy was
  installed by another session replaces that default with the proxy of its own worker.
\<close>

theorem fetch_path_contents_globals_counterexample:
  "is_running foreign_proxy_worker
   \<and> default_proxy (globals foreign_proxy_worker) = Some (''127.0.0.1'', 9050)
   \<and> default_proxy (globals (snd (fetch_path_contents example_env (''/'', example_share)
         foreign_proxy_worker))) = Some (''127.0.0.1'', 1080)
   \<and> globals (snd (fetch_path_contents example_env (''/'', example_share) foreign_proxy_worker))
       \<noteq> globals foreign_proxy_worker"
  by (simp add: foreign_proxy_worker_def example_worker_def connected_worker_def
      example_config_def fetch_path_contents_def browser_set_proxy_def Let_def initial_globals_def)

text \<open>
  Claim C5, as the code has it. Every listing task of a running worker writes the proxy of
  its worker's configuration to the process-wide default and installs the SOCKS socket
  class, whatever the settings were before; no dialer is handed to the session. The
  process-wide settings are the same after the task as before it only when the same
  configuration was installed already. A host check of the scanner does the same with
  the scanner's settings.
\<close>

theorem fetch_path_contents_sets_proxy:
  assumes "is_running w"
  shows "globals (snd (fetch_path_contents env task w))
           = browser_set_proxy (worker_config w) (globals w)
       \<and> default_proxy (globals (snd (fetch_path_contents env task w)))
           = (if use_proxy (worker_config w) = Some False then None
              else Some (proxy_host (worker_config w), proxy_port (worker_config w)))
       \<and> socket_socket (globals (snd (fetch_path_contents env task w))) = SocksSocket
       \<and> (globals w = browser_set_proxy (worker_config w) g \<longrightarrow>
            globals (snd (fetch_path_contents env task w)) = globals w)
       \<and> snd (snd (check_smb_host conn u h quick_scan proxied port g'))
           = scanner_set_proxy proxied port g'"
proof -
  have "snd (snd (check_smb_host conn u h quick_scan proxied port g'))
           = scanner_set_proxy proxied port g'"
    by (simp add: check_smb_host_def Let_def split_beta split: option.splits bool.splits)
  then show ?thesis
    using assms
    by (auto simp: fetch_path_contents_def browser_set_proxy_def Let_def split: option.splits)
qed

theorem fetch_path_contents_sets_proxy_witness:
  "is_running example_worker
   \<and> default_proxy (globals (snd (fetch_path_contents example_env (''/'', example_share)
         example_worker))) = Some (''127.0.0.1'', 1080)
   \<and> globals (snd (fetch_path_contents example_env (''/'', example_share) example_worker))
       = globals example_worker"
proof -
  have h: "is_running example_worker"
    by (simp add: example_worker_def connected_worker_def)
  have g: "globals example_worker
             = browser_set_proxy (worker_config example_worker) initial_globals"
    by (simp add: example_worker_def connected_worker_def)
  have c: "use_proxy (worker_config example_worker) = Some True"
    "proxy_host (worker_config example_worker) = ''127.0.0.1''"
    "proxy_port (worker_config example_worker) = 1080"
    by (simp_all add: example_worker_def connected_worker_def example_config_def)
  note r = fetch_path_contents_sets_proxy [OF h, of example_env "(''/'', example_share)"
      initial_globals open_session "\<lambda>k. []" "[]" False True 0 initial_globals]
  from r g have same:
    "globals (snd (fetch_path_contents example_env (''/'', example_share) example_worker))
       = globals example_worker"
    by blast
  from r have "default_proxy (globals (snd (fetch_path_contents example_env
        (''/'', example_share) example_worker)))
      = (if use_proxy (worker_config example_worker) = Some False then None
         else Some (proxy_host (worker_config example_worker),
                    proxy_port (worker_config example_worker)))"
    by blast
  then have "default_proxy (globals (snd (fetch_path_contents example_env
        (''/'', example_share) example_worker))) = Some (''127.0.0.1'', 1080)"
    by (simp add: c)
  with h same show ?thesis by blast
qed

section \<open>Properties of the scanner output parser\<close>

lemma same_view_eq:
  "same_view st sa \<Longrightarrow> scanner_buffer sa = b \<Longrightarrow> sa = st\<lparr>scanner_buffer := b\<rparr>"
  by (cases st, cases sa) (simp add: same_view_def)

lemma add_shares_frame [simp]:
  "status_bar (snd (add_shares h xs st)) = status_bar st"
  "results_decoded (snd (add_shares h xs st)) = results_decoded st"
  "gui_printed (snd (add_shares h xs st)) = gui_printed st"
  by (induction h xs st rule: add_shares.induct; simp split: sum.splits)+

lemma add_shares_model:
  "scan_model st = scan_model sa \<Longrightarrow>
     fst (add_shares h xs st) = fst (add_shares h xs sa)
     \<and> scan_model (snd (add_shares h xs st)) = scan_model (snd (add_shares h xs sa))"
  by (induction xs arbitrary: st sa) (simp_all split: sum.splits)

lemma add_shares_view:
  "same_view st sa \<Longrightarrow>
     fst (add_shares h xs st) = fst (add_shares h xs sa)
     \<and> same_view (snd (add_shares h xs st)) (snd (add_shares h xs sa))"
  using add_shares_model [of st sa h xs] by (simp add: same_view_def)

lemma add_result_view:
  assumes "same_view st sa"
  shows "fst (add_result r st) = fst (add_result r sa)
       \<and> same_view (snd (add_result r st)) (snd (add_result r sa))"
proof -
  have v: "\<And>f g. same_view (st\<lparr>results_decoded := results_decoded st @ f\<rparr>)
                      (sa\<lparr>results_decoded := results_decoded sa @ f\<rparr>)"
    "\<And>f g. same_view (st\<lparr>results_decoded := results_decoded st @ f,
                                 scan_model := scan_model st @ g\<rparr>)
                      (sa\<lparr>results_decoded := results_decoded sa @ f,
                                 scan_model := scan_model sa @ g\<rparr>)"
    using assms by (simp_all add: same_view_def)
  have m: "scan_model st = scan_model sa" using assms by (simp add: same_view_def)
  show ?thesis
    using v add_shares_view
    by (simp add: add_result_def Let_def m split: json.splits option.splits sum.splits)
qed

lemma newline_pos_less:
  "newline \<in> set b \<Longrightarrow> length (takeWhile (\<lambda>c. c \<noteq> newline) b) < length b"
  by (induction b) auto

lemma line_of_append:
  assumes "newline \<in> set b"
  shows "takeWhile (\<lambda>c. c \<noteq> newline) (b @ c) = takeWhile (\<lambda>c. c \<noteq> newline) b"
    and "take (length (takeWhile (\<lambda>c. c \<noteq> newline) b)) (b @ c)
           = take (length (takeWhile (\<lambda>c. c \<noteq> newline) b)) b"
    and "drop (Suc (length (takeWhile (\<lambda>c. c \<noteq> newline) b))) (b @ c)
           = drop (Suc (length (takeWhile (\<lambda>c. c \<noteq> newline) b))) b @ c"
proof -
  show "takeWhile (\<lambda>c. c \<noteq> newline) (b @ c) = takeWhile (\<lambda>c. c \<noteq> newline) b"
    using assms by (simp add: takeWhile_append1 [where x = newline])
  show "take (length (takeWhile (\<lambda>c. c \<noteq> newline) b)) (b @ c)
           = take (length (takeWhile (\<lambda>c. c \<noteq> newline) b)) b"
    and "drop (Suc (length (takeWhile (\<lambda>c. c \<noteq> newline) b))) (b @ c)
           = drop (Suc (length (takeWhile (\<lambda>c. c \<noteq> newline) b))) b @ c"
    using newline_pos_less [OF assms] by simp_all
qed

lemma process_buffer_append:
  "process_buffer js st = (None, st') \<Longrightarrow> same_view st sa \<Longrightarrow>
   scanner_buffer sa = scanner_buffer st @ c \<Longrightarrow>
     process_buffer js sa = process_buffer js (st'\<lparr>scanner_buffer := scanner_buffer st' @ c\<rparr>)"
proof (induction "length (scanner_buffer st)" arbitrary: st sa rule: less_induct)
  case less
  show ?case
  proof (cases "newline \<in> set (scanner_buffer st)")
    case False
    then have "st' = st" using less.prems(1) by (simp add: process_buffer.simps [of js st])
    then show ?thesis using same_view_eq [OF less.prems(2,3)] by simp
  next
    case True
    define n where "n = length (takeWhile (\<lambda>c. c \<noteq> newline) (scanner_buffer st))"
    define line where "line = strip (take n (scanner_buffer st))"
    define st1 where "st1 = st\<lparr>scanner_buffer := drop (n + 1) (scanner_buffer st)\<rparr>"
    define sa1 where "sa1 = sa\<lparr>scanner_buffer := drop (n + 1) (scanner_buffer st) @ c\<rparr>"
    note la = line_of_append [OF True, of c, folded n_def]
    have short: "length (scanner_buffer st1) < length (scanner_buffer st)"
      using newline_pos_less [OF True] by (simp add: st1_def n_def)
    have v1: "same_view st1 sa1" "scanner_buffer sa1 = scanner_buffer st1 @ c"
      using less.prems(2) by (simp_all add: same_view_def st1_def sa1_def)
    have R: "process_buffer js st =
      (if line = [] then process_buffer js st1
       else if startswith line ''STATUS:''
         then process_buffer js (update_status (strip (py_replace ''STATUS:'' [] line)) st1)
       else if startswith line ''RESULT:''
         then (case js (strip (py_replace ''RESULT:'' [] line)) of
                 None \<Rightarrow> process_buffer js (st1\<lparr>gui_printed := gui_printed st1
                            @ [''[GUI ERROR] Failed to parse JSON result: '' @ line]\<rparr>)
               | Some result \<Rightarrow>
                   (case add_result result st1 of
                      (Some e, st2) \<Rightarrow> (Some e, st2)
                    | (None, st2) \<Rightarrow> process_buffer js st2))
       else process_buffer js st1)"
      using True unfolding line_def st1_def n_def
      by (subst process_buffer.simps) (simp add: Let_def cong: option.case_cong)
    have L: "process_buffer js sa =
      (if line = [] then process_buffer js sa1
       else if startswith line ''STATUS:''
         then process_buffer js (update_status (strip (py_replace ''STATUS:'' [] line)) sa1)
       else if startswith line ''RESULT:''
         then (case js (strip (py_replace ''RESULT:'' [] line)) of
                 None \<Rightarrow> process_buffer js (sa1\<lparr>gui_printed := gui_printed sa1
                            @ [''[GUI ERROR] Failed to parse JSON result: '' @ line]\<rparr>)
               | Some result \<Rightarrow>
                   (case add_result result sa1 of
                      (Some e, sa2) \<Rightarrow> (Some e, sa2)
                    | (None, sa2) \<Rightarrow> process_buffer js sa2))
       else process_buffer js sa1)"
      using True unfolding line_def sa1_def n_def
      by (subst process_buffer.simps)
        (simp add: Let_def less.prems(3) line_of_append [OF True] del: take_append drop_append
          cong: option.case_cong)
    have step: "process_buffer js sb = process_buffer js (st'\<lparr>scanner_buffer := scanner_buffer st' @ c\<rparr>)"
      if "process_buffer js s = (None, st')" "same_view s sb"
        "scanner_buffer s = scanner_buffer st1" "scanner_buffer sb = scanner_buffer sa1" for s sb
      using less.hyps [of s sb] that short v1(2) by simp
    show ?thesis
    proof (cases "line = []")
      case True
      with R less.prems(1) have "process_buffer js st1 = (None, st')" by simp
      from step [OF this v1(1)] True L show ?thesis by simp
    next
      case ne: False
      show ?thesis
      proof (cases "startswith line ''STATUS:''")
        case True
        let ?m = "strip (py_replace ''STATUS:'' [] line)"
        from R less.prems(1) ne True
        have "process_buffer js (update_status ?m st1) = (None, st')" by simp
        from step [OF this, of "update_status ?m sa1"] v1 ne True L show ?thesis
          by (simp add: same_view_def update_status_def)
      next
        case ns: False
        show ?thesis
        proof (cases "startswith line ''RESULT:''")
          case False
          with R less.prems(1) ne ns have "process_buffer js st1 = (None, st')" by simp
          from step [OF this v1(1)] ne ns False L show ?thesis by simp
        next
          case True
          show ?thesis
          proof (cases "js (strip (py_replace ''RESULT:'' [] line))")
            case None
            let ?p = "''[GUI ERROR] Failed to parse JSON result: '' @ line"
            from R less.prems(1) ne ns True None
            have "process_buffer js (st1\<lparr>gui_printed := gui_printed st1 @ [?p]\<rparr>) = (None, st')"
              by simp
            from step [OF this, of "sa1\<lparr>gui_printed := gui_printed sa1 @ [?p]\<rparr>"]
              v1 ne ns True None L
            show ?thesis by (simp add: same_view_def)
          next
            case (Some result)
            obtain e st2 where r1: "add_result result st1 = (e, st2)" by (cases "add_result result st1")
            obtain e' sa2 where r2: "add_result result sa1 = (e', sa2)" by (cases "add_result result sa1")
            have ee: "e' = e" and v2: "same_view st2 sa2"
              using add_result_view [OF v1(1), of result] r1 r2 by simp_all
            have b2: "scanner_buffer st2 = scanner_buffer st1" "scanner_buffer sa2 = scanner_buffer sa1"
              using scanner_buffer_add_result [of result st1] scanner_buffer_add_result [of result sa1]
                r1 r2 by simp_all
            from R less.prems(1) ne ns True Some r1
            have e: "e = None" and "process_buffer js st2 = (None, st')"
              by (cases e; simp)+
            from step [OF this(2) v2 b2] ne ns True Some r2 ee e L show ?thesis by simp
          qed
        qed
      qed
    qed
  qed
qed

lemma handle_scanner_output_chunks:
  assumes "fst (handle_scanner_output js c1 st) = None"
  shows "handle_scanner_output js c2 (snd (handle_scanner_output js c1 st))
           = handle_scanner_output js (c1 @ c2) st"
proof -
  let ?s1 = "st\<lparr>scanner_buffer := scanner_buffer st @ c1\<rparr>"
  obtain st' where r: "process_buffer js ?s1 = (None, st')"
    using assms by (cases "process_buffer js ?s1") (simp add: handle_scanner_output_def)
  have "process_buffer js (st\<lparr>scanner_buffer := scanner_buffer st @ c1 @ c2\<rparr>)
          = process_buffer js (st'\<lparr>scanner_buffer := scanner_buffer st' @ c2\<rparr>)"
    by (rule process_buffer_append [OF r]) (simp_all add: same_view_def)
  then show ?thesis by (simp add: handle_scanner_output_def r)
qed

lemma example_strings:
  "strip ''STATUS:a'' = ''STATUS:a''"
  "py_replace ''STATUS:'' [] ''STATUS:a'' = ''a''"
  "strip ''a'' = ''a''"
  \<open>strip ''RESULT:{"host":"h","status":"success","shares":[]}''
     = ''RESULT:{"host":"h","status":"success","shares":[]}''\<close>
  \<open>py_replace ''RESULT:'' [] ''RESULT:{"host":"h","status":"success","shares":[]}''
     = ''{"host":"h","status":"success","shares":[]}''\<close>
  \<open>strip ''{"host":"h","status":"success","shares":[]}''
     = ''{"host":"h","status":"success","shares":[]}''\<close>
  "startswith ''STATUS:a'' ''STATUS:''"
  \<open>\<not> startswith ''RESULT:{"host":"h","status":"success","shares":[]}'' ''STATUS:''\<close>
  \<open>startswith ''RESULT:{"host":"h","status":"success","shares":[]}'' ''RESULT:''\<close>
  by code_simp+

text \<open>
  Claim C8. The parser keeps a partial line in its buffer until the newline arrives: of the
  two chunks of the example, the first yields one status message and leaves the started
  \<open>RESULT\<close> line in the buffer, without decoding anything; the second completes the line,
  which is decoded once and adds the host to the model. In general, as long as no slot
  invocation is left by an exception, feeding two chunks one after the other gives the
  same state as feeding their concatenation.
\<close>

theorem scanner_output_framing:
  assumes "json_loads example_payload = Some example_result"
    and "scanner_buffer st = []"
  shows \<open>handle_scanner_output json_loads chunk_a st
           = (None, st\<lparr>scanner_buffer := ''RESULT:{"host":'',
                       status_bar := status_bar st @ [''Status: a'']\<rparr>)
       \<and> handle_scanner_output json_loads chunk_b
             (snd (handle_scanner_output json_loads chunk_a st))
           = (None, st\<lparr>scanner_buffer := [],
                       status_bar := status_bar st @ [''Status: a''],
                       results_decoded := results_decoded st @ [example_result],
                       scan_model := (if ''h'' \<in> fst ` set (scan_model st) then scan_model st
                                      else scan_model st @ [(''h'', [])])\<rparr>)
       \<and> (\<forall>c1 c2 s. fst (handle_scanner_output json_loads c1 s) = None \<longrightarrow>
             handle_scanner_output json_loads c2 (snd (handle_scanner_output json_loads c1 s))
               = handle_scanner_output json_loads (c1 @ c2) s)\<close>
proof -
  have first: \<open>handle_scanner_output json_loads chunk_a st
           = (None, st\<lparr>scanner_buffer := ''RESULT:{"host":'',
                       status_bar := status_bar st @ [''Status: a'']\<rparr>)\<close>
    apply (simp add: handle_scanner_output_def assms(2) chunk_a_def)
    apply (subst process_buffer.simps)
    apply (simp add: Let_def example_strings update_status_def)
    apply (subst process_buffer.simps)
    apply (simp add: Let_def)
    done
  define addh :: "(string \<times> (string \<times> string) list) list \<Rightarrow> _"
    where "addh = (\<lambda>ms. if ''h'' \<in> fst ` set ms then ms else ms @ [(''h'', [])])"
  have res: "\<And>s. add_result example_result s
      = (None, s\<lparr>results_decoded := results_decoded s @ [example_result],
                 scan_model := addh (scan_model s)\<rparr>)"
  proof -
    fix s :: scan_gui
    show "add_result example_result s
      = (None, s\<lparr>results_decoded := results_decoded s @ [example_result],
                 scan_model := addh (scan_model s)\<rparr>)"
      by (cases s)
        (simp add: add_result_def example_result_def dict_get_def iterate_def Let_def addh_def
          qt_item_text_def)
  qed
  have second: "handle_scanner_output json_loads chunk_b
             (snd (handle_scanner_output json_loads chunk_a st))
           = (None, st\<lparr>scanner_buffer := [],
                       status_bar := status_bar st @ [''Status: a''],
                       results_decoded := results_decoded st @ [example_result],
                       scan_model := addh (scan_model st)\<rparr>)"
    apply (subst first)
    apply (simp add: handle_scanner_output_def chunk_b_def)
    apply (subst process_buffer.simps)
    apply (simp add: Let_def example_strings assms(1) [unfolded example_payload_def] res)
    apply (subst process_buffer.simps)
    apply simp
    done
  from first second [unfolded addh_def] handle_scanner_output_chunks show ?thesis by blast
qed

theorem scanner_output_framing_witness:
  "mock_json_loads example_payload = Some example_result
   \<and> scanner_buffer empty_gui = []
   \<and> status_bar (snd (handle_scanner_output mock_json_loads chunk_a empty_gui)) = [''Status: a'']
   \<and> results_decoded (snd (handle_scanner_output mock_json_loads chunk_a empty_gui)) = []
   \<and> scan_model (snd (handle_scanner_output mock_json_loads chunk_a empty_gui)) = []
   \<and> status_bar (snd (handle_scanner_output mock_json_loads chunk_b
        (snd (handle_scanner_output mock_json_loads chunk_a empty_gui)))) = [''Status: a'']
   \<and> results_decoded (snd (handle_scanner_output mock_json_loads chunk_b
        (snd (handle_scanner_output mock_json_loads chunk_a empty_gui)))) = [example_result]
   \<and> scan_model (snd (handle_scanner_output mock_json_loads chunk_b
        (snd (handle_scanner_output mock_json_loads chunk_a empty_gui)))) = [(''h'', [])]
   \<and> gui_printed (snd (handle_scanner_output mock_json_loads chunk_b
        (snd (handle_scanner_output mock_json_loads chunk_a empty_gui)))) = []"
proof -
  have h: "mock_json_loads example_payload = Some example_result" "scanner_buffer empty_gui = []"
    by (simp_all add: mock_json_loads_def empty_gui_def)
  note r = scanner_output_framing [of mock_json_loads empty_gui, OF h]
  have a: \<open>handle_scanner_output mock_json_loads chunk_a empty_gui
      = (None, empty_gui\<lparr>scanner_buffer := ''RESULT:{"host":'',
                       status_bar := status_bar empty_gui @ [''Status: a'']\<rparr>)\<close>
    using r by blast
  have b: "handle_scanner_output mock_json_loads chunk_b
             (snd (handle_scanner_output mock_json_loads chunk_a empty_gui))
      = (None, empty_gui\<lparr>scanner_buffer := [],
                       status_bar := status_bar empty_gui @ [''Status: a''],
                       results_decoded := results_decoded empty_gui @ [example_result],
                       scan_model := (if ''h'' \<in> fst ` set (scan_model empty_gui)
                                      then scan_model empty_gui
                                      else scan_model empty_gui @ [(''h'', [])])\<rparr>)"
    using r by blast
  have b': \<open>handle_scanner_output mock_json_loads chunk_b
             (empty_gui\<lparr>scanner_buffer := ''RESULT:{"host":'',
                       status_bar := status_bar empty_gui @ [''Status: a'']\<rparr>)
      = (None, empty_gui\<lparr>scanner_buffer := [],
                       status_bar := status_bar empty_gui @ [''Status: a''],
                       results_decoded := results_decoded empty_gui @ [example_result],
                       scan_model := (if ''h'' \<in> fst ` set (scan_model empty_gui)
                                      then scan_model empty_gui
                                      else scan_model empty_gui @ [(''h'', [])])\<rparr>)\<close>
    using b by (simp only: a snd_conv)
  show ?thesis
    apply (simp only: a b' snd_conv fst_conv)
    apply (simp add: h empty_gui_def)
    done
qed

lemma bad_line_strings:
  "strip ''RESULT:{not json}'' = ''RESULT:{not json}''"
  "py_replace ''RESULT:'' [] ''RESULT:{not json}'' = ''{not json}''"
  "strip ''{not json}'' = ''{not json}''"
  "\<not> startswith ''RESULT:{not json}'' ''STATUS:''"
  "startswith ''RESULT:{not json}'' ''RESULT:''"
  "strip ''STATUS:next'' = ''STATUS:next''"
  "py_replace ''STATUS:'' [] ''STATUS:next'' = ''next''"
  "strip ''next'' = ''next''"
  "startswith ''STATUS:next'' ''STATUS:''"
  by code_simp+

lemma line_cut:
  assumes "newline \<notin> set l"
  shows "takeWhile (\<lambda>c. c \<noteq> newline) (l @ newline # rest) = l"
  using assms by (induction l) auto

text \<open>
  Claim C9. Let a chunk complete a line (the buffered text followed by the text of the
  chunk up to its first newline) that, stripped, starts with \<open>RESULT:\<close> and whose payload
  the decoder rejects. Then the line is printed as an error and dropped: nothing is
  decoded, the model of results is unchanged, and the text after the line is processed as
  it would be from the state before, which differs in the printed error only.
\<close>

theorem malformed_result_dropped:
  assumes "newline \<notin> set (scanner_buffer st)" and "newline \<notin> set c"
    and "startswith (strip (scanner_buffer st @ c)) ''RESULT:''"
    and "json_loads (strip (py_replace ''RESULT:'' [] (strip (scanner_buffer st @ c)))) = None"
  shows "handle_scanner_output json_loads (c @ [newline] @ rest) st
           = process_buffer json_loads
               (st\<lparr>scanner_buffer := rest,
                   gui_printed := gui_printed st
                     @ [''[GUI ERROR] Failed to parse JSON result: ''
                        @ strip (scanner_buffer st @ c)]\<rparr>)
       \<and> handle_scanner_output json_loads (c @ [newline]) st
           = (None, st\<lparr>scanner_buffer := [],
                   gui_printed := gui_printed st
                     @ [''[GUI ERROR] Failed to parse JSON result: ''
                        @ strip (scanner_buffer st @ c)]\<rparr>)"
proof -
  define l where "l = scanner_buffer st @ c"
  have nl: "newline \<notin> set l" using assms(1,2) by (simp add: l_def)
  have kind: "strip l \<noteq> []" "\<not> startswith (strip l) ''STATUS:''" "startswith (strip l) ''RESULT:''"
    using assms(3) by (auto simp: startswith_def l_def)
  have first: "handle_scanner_output json_loads (c @ [newline] @ rest) st
           = process_buffer json_loads
               (st\<lparr>scanner_buffer := rest,
                   gui_printed := gui_printed st
                     @ [''[GUI ERROR] Failed to parse JSON result: '' @ strip l]\<rparr>)" for rest
  proof -
    have buf: "scanner_buffer st @ c @ [newline] @ rest = l @ newline # rest"
      by (simp add: l_def)
    show ?thesis
      unfolding handle_scanner_output_def buf
      apply (subst process_buffer.simps)
      apply (simp add: Let_def line_cut [OF nl] kind assms(4) [folded l_def])
      done
  qed
  have "handle_scanner_output json_loads (c @ [newline]) st
           = (None, st\<lparr>scanner_buffer := [],
                   gui_printed := gui_printed st
                     @ [''[GUI ERROR] Failed to parse JSON result: '' @ strip l]\<rparr>)"
    using first [of "[]"] by (simp add: process_buffer.simps [of json_loads])
  with first show ?thesis unfolding l_def by blast
qed

theorem malformed_result_dropped_witness:
  "newline \<notin> set (scanner_buffer empty_gui)
   \<and> newline \<notin> set ''RESULT:{not json}''
   \<and> startswith (strip (scanner_buffer empty_gui @ ''RESULT:{not json}'')) ''RESULT:''
   \<and> mock_json_loads (strip (py_replace ''RESULT:'' []
        (strip (scanner_buffer empty_gui @ ''RESULT:{not json}'')))) = None
   \<and> fst (handle_scanner_output mock_json_loads
        (''RESULT:{not json}'' @ [newline] @ ''STATUS:next'' @ [newline]) empty_gui) = None
   \<and> results_decoded (snd (handle_scanner_output mock_json_loads
        (''RESULT:{not json}'' @ [newline] @ ''STATUS:next'' @ [newline]) empty_gui)) = []
   \<and> scan_model (snd (handle_scanner_output mock_json_loads
        (''RESULT:{not json}'' @ [newline] @ ''STATUS:next'' @ [newline]) empty_gui)) = []
   \<and> status_bar (snd (handle_scanner_output mock_json_loads
        (''RESULT:{not json}'' @ [newline] @ ''STATUS:next'' @ [newline]) empty_gui))
      = [''Status: next'']
   \<and> gui_printed (snd (handle_scanner_output mock_json_loads
        (''RESULT:{not json}'' @ [newline] @ ''STATUS:next'' @ [newline]) empty_gui))
      = [''[GUI ERROR] Failed to parse JSON result: RESULT:{not json}'']"
proof -
  have b: "scanner_buffer empty_gui = []" by (simp add: empty_gui_def)
  have h: "newline \<notin> set (scanner_buffer empty_gui)" "newline \<notin> set ''RESULT:{not json}''"
    "startswith (strip (scanner_buffer empty_gui @ ''RESULT:{not json}'')) ''RESULT:''"
    "mock_json_loads (strip (py_replace ''RESULT:'' []
        (strip (scanner_buffer empty_gui @ ''RESULT:{not json}'')))) = None"
    by (simp_all add: b bad_line_strings mock_json_loads_def example_payload_def)
  let ?st = "empty_gui\<lparr>scanner_buffer := ''STATUS:next'' @ [newline],
      gui_printed := gui_printed empty_gui
        @ [''[GUI ERROR] Failed to parse JSON result: ''
           @ strip (scanner_buffer empty_gui @ ''RESULT:{not json}'')]\<rparr>"
  have r: "handle_scanner_output mock_json_loads
        (''RESULT:{not json}'' @ [newline] @ ''STATUS:next'' @ [newline]) empty_gui
      = process_buffer mock_json_loads ?st"
    using malformed_result_dropped [of empty_gui "''RESULT:{not json}''" mock_json_loads
        "''STATUS:next'' @ [newline]", OF h]
    by blast
  have e: "process_buffer mock_json_loads ?st
      = (None, \<lparr>scanner_buffer = [], status_bar = [''Status: next''], scan_model = [],
           results_decoded = [],
           gui_printed = [''[GUI ERROR] Failed to parse JSON result: RESULT:{not json}'']\<rparr>)"
    apply (subst process_buffer.simps)
    apply (simp add: Let_def bad_line_strings update_status_def empty_gui_def)
    apply (subst process_buffer.simps)
    apply simp
    done
  show ?thesis
    unfolding r e using h by simp
qed

end
